theory Spec2Isabelle
  imports Complex_Main
begin

section \<open>The RSS backend of Perceval (perceval/backends/core/rss.py)\<close>

text \<open>
  The backend retrieves the text of one feed over HTTP, pushes it on the cache queue,
  parses it into entries, flushes the queue, and yields the entries one at a time; a
  second generator replays the entries from the cache. Both generators are wrapped by
  the \<open>metadata\<close> decorator. Generators are modelled as resumable state machines:
  a generator object is a state, and \<open>next\<close> is a function from the backend and
  that state to the new ones and an outcome (a yielded value, exhaustion, or a raised
  exception). Exceptions are values of the type \<open>error\<close>.
\<close>

subsection \<open>Values, entries, exceptions\<close>

type_synonym raw = string

text \<open>The Python values an entry of the feed can hold under a key.\<close>

datatype pyval = PStr string | PInt int | PBool bool | PNone

text \<open>An entry is a dictionary from field names to values.\<close>

type_synonym entry = "(string \<times> pyval) list"

text \<open>
  The exceptions of the module: \<open>HTTPError\<close> of \<open>raise_for_status\<close> with the status,
  \<open>ConnectionError\<close> of \<open>requests.get\<close>, \<open>CacheError\<close> with its cause (the only
  cache exception the module imports), \<open>KeyError\<close> of a subscript with the missing key,
  \<open>InvalidDateError\<close> of \<open>str_to_datetime\<close> with the rejected text, \<open>ParseError\<close> of
  the feed parser, and the \<open>RuntimeError\<close> a generator raises when a \<open>StopIteration\<close>
  escapes from its body.
\<close>

datatype error =
    HTTPError nat
  | ConnectionError
  | CacheError string
  | KeyError string
  | InvalidDateError string
  | ParseError
  | RuntimeError string

text \<open>Python's \<open>str\<close> on these values.\<close>

definition digit_char :: "nat \<Rightarrow> char" where
  "digit_char d = char_of (48 + d)"

fun str_nat :: "nat \<Rightarrow> string" where
  "str_nat n = (if n < 10 then [digit_char n] else str_nat (n div 10) @ [digit_char (n mod 10)])"

declare str_nat.simps [simp del]

definition str_int :: "int \<Rightarrow> string" where
  "str_int i = (if i < 0 then CHR ''-'' # str_nat (nat (- i)) else str_nat (nat i))"

fun py_str :: "pyval \<Rightarrow> string" where
  "py_str (PStr s) = s"
| "py_str (PInt i) = str_int i"
| "py_str (PBool b) = (if b then ''True'' else ''False'')"
| "py_str PNone = ''None''"

text \<open>The subscript \<open>item[key]\<close>: a missing key raises \<open>KeyError\<close>.\<close>

definition getitem :: "entry \<Rightarrow> string \<Rightarrow> error + pyval" where
  "getitem item k = (case map_of item k of None \<Rightarrow> Inl (KeyError k) | Some v \<Rightarrow> Inr v)"

subsection \<open>Dates\<close>

text \<open>A date and time of the proleptic Gregorian calendar, in UTC.\<close>

record datetime =
  year :: int
  month :: int
  day :: int
  hour :: int
  minute :: int
  second :: int
  microsecond :: int

text \<open>The ordinal of a date, as \<open>_ymd2ord\<close> of Python's standard library counts it.\<close>

definition is_leap :: "int \<Rightarrow> bool" where
  "is_leap y = (y mod 4 = 0 \<and> (y mod 100 \<noteq> 0 \<or> y mod 400 = 0))"

definition days_before_year :: "int \<Rightarrow> int" where
  "days_before_year y = (let p = y - 1 in p * 365 + p div 4 - p div 100 + p div 400)"

definition DAYS_BEFORE_MONTH :: "int list" where
  "DAYS_BEFORE_MONTH = [-1, 0, 31, 59, 90, 120, 151, 181, 212, 243, 273, 304, 334]"

definition days_before_month :: "int \<Rightarrow> int \<Rightarrow> int" where
  "days_before_month y m =
     DAYS_BEFORE_MONTH ! nat m + (if m > 2 \<and> is_leap y then 1 else 0)"

definition ymd2ord :: "int \<Rightarrow> int \<Rightarrow> int \<Rightarrow> int" where
  "ymd2ord y m d = days_before_year y + days_before_month y m + d"

text \<open>
  Python's true division of two integers, \<open>n / d\<close> with a positive divisor: the float
  (binary64) nearest to the quotient, a tie going to the even significand.
  \<open>true_divide\<close> gives the real number that float denotes. \<open>float_exponent\<close> is the
  exponent of the last place of the result: for \<open>2 ^ f \<le> a / d < 2 ^ (f + 1)\<close> it
  is \<open>f - 52\<close>, and \<open>f\<close> is found from the bit lengths of \<open>a\<close> and \<open>d\<close>. The quotients
  taken here are far inside the normal range of binary64 (no overflow, no subnormal
  result).
\<close>

fun bit_length :: "nat \<Rightarrow> nat" where
  "bit_length n = (if n = 0 then 0 else Suc (bit_length (n div 2)))"

declare bit_length.simps [simp del]

definition round_half_even :: "int \<Rightarrow> int \<Rightarrow> int" where
  "round_half_even n d =
     (let q = n div d; r = n mod d
      in if 2 * r < d then q else if d < 2 * r then q + 1 else if even q then q else q + 1)"

definition float_exponent :: "int \<Rightarrow> int \<Rightarrow> int" where
  "float_exponent a d =
     (let k = int (bit_length (nat a)) - int (bit_length (nat d));
          f = (if d * 2 ^ nat k \<le> a * 2 ^ nat (- k) then k else k - 1)
      in f - 52)"

definition true_divide :: "int \<Rightarrow> int \<Rightarrow> real" where
  "true_divide n d =
     (let a = \<bar>n\<bar>;
          e = float_exponent a d;
          m = round_half_even (a * 2 ^ nat (- e)) (d * 2 ^ nat e)
      in real_of_int (sgn n * m) * (if 0 \<le> e then 2 ^ nat e else 1 / 2 ^ nat (- e)))"

text \<open>
  Python's \<open>datetime.timestamp()\<close> on a datetime in UTC: the difference to the epoch,
  a number of microseconds found from the ordinal of the date (\<open>_ymd2ord\<close> of the
  standard library), divided by \<open>10 ** 6\<close> (\<open>timedelta.total_seconds\<close>). The result is
  a float.
\<close>

definition timestamp :: "datetime \<Rightarrow> real" where
  "timestamp dt =
     (let days = ymd2ord (year dt) (month dt) (day dt) - ymd2ord 1970 1 1;
          secs = hour dt * 3600 + minute dt * 60 + second dt
      in true_divide ((days * 86400 + secs) * 1000000 + microsecond dt) 1000000)"

text \<open>
  The dates a \<open>datetime\<close> object can hold: Python checks the ranges when it builds one.
\<close>

definition days_in_month :: "int \<Rightarrow> int \<Rightarrow> int" where
  "days_in_month y m =
     (if m = 2 then (if is_leap y then 29 else 28)
      else if m = 4 \<or> m = 6 \<or> m = 9 \<or> m = 11 then 30 else 31)"

definition valid_datetime :: "datetime \<Rightarrow> bool" where
  "valid_datetime dt =
     (1 \<le> year dt \<and> year dt \<le> 9999 \<and> 1 \<le> month dt \<and> month dt \<le> 12 \<and>
      1 \<le> day dt \<and> day dt \<le> days_in_month (year dt) (month dt) \<and>
      0 \<le> hour dt \<and> hour dt < 24 \<and> 0 \<le> minute dt \<and> minute dt < 60 \<and>
      0 \<le> second dt \<and> second dt < 60 \<and> 0 \<le> microsecond dt \<and> microsecond dt < 1000000)"

text \<open>
  The specification's words for the update time, to compare \<open>timestamp\<close> with: the UTC
  UNIX timestamp of a date is the time from 1970-01-01T00:00:00 UTC to it, in seconds.
  The days are counted year by year and month by month. \<open>spec_unix_seconds\<close> is
  that time without the microseconds of the date, \<open>spec_unix_microseconds\<close> the whole
  of it in microseconds, and \<open>spec_unix_timestamp\<close> the exact number of seconds.
\<close>

definition days_in_year :: "int \<Rightarrow> int" where
  "days_in_year y = (if is_leap y then 366 else 365)"

definition days_since_epoch :: "int \<Rightarrow> int \<Rightarrow> int \<Rightarrow> int" where
  "days_since_epoch y m d =
     (\<Sum>k\<leftarrow>[1..y - 1]. days_in_year k) - (\<Sum>k\<leftarrow>[1..1969]. days_in_year k) +
     (\<Sum>k\<leftarrow>[1..m - 1]. days_in_month y k) + (d - 1)"

definition spec_unix_seconds :: "datetime \<Rightarrow> int" where
  "spec_unix_seconds dt =
     days_since_epoch (year dt) (month dt) (day dt) * 86400 +
     hour dt * 3600 + minute dt * 60 + second dt"

definition spec_unix_microseconds :: "datetime \<Rightarrow> int" where
  "spec_unix_microseconds dt = spec_unix_seconds dt * 1000000 + microsecond dt"

definition spec_unix_timestamp :: "datetime \<Rightarrow> real" where
  "spec_unix_timestamp dt = real_of_int (spec_unix_microseconds dt) / 1000000"

subsection \<open>The collaborators outside the repository\<close>

text \<open>
  The HTTP library, the feed parser, the date parser and the storage of the cache are
  outside the module; what they answer is a parameter of the model. \<open>requests_get\<close>
  is \<open>requests.get\<close>: a response or a transport error. \<open>feed_entries\<close> is what
  \<open>feedparser.parse(raw)['entries']\<close> gives for a payload that is not empty.
  \<open>other_date_formats\<close> is what the date parser gives, moved to UTC, for a text that is
  not of the ISO 8601 form read below, and \<open>None\<close> where it rejects the text.
  \<open>cache_failure\<close> is the state of the storage behind the cache: \<open>None\<close> when it can
  be read, and the cause of the failure when a read of it fails.
\<close>

record response =
  status_code :: nat
  body :: string

record env =
  requests_get :: "string \<Rightarrow> error + response"
  feed_entries :: "raw \<Rightarrow> error + entry list"
  other_date_formats :: "string \<Rightarrow> datetime option"
  cache_failure :: "string option"

text \<open>
  Modelled from the spec: \<open>feedparser.parse\<close> is a library that is not part of the
  sources at hand. Sections 4.2, 7 and 8 of the specification: the parser is lenient,
  and for the empty payload it yields zero entries and raises nothing. What it
  yields for any other payload is the parameter \<open>feed_entries\<close>.
\<close>

definition feedparser_parse :: "env \<Rightarrow> raw \<Rightarrow> error + entry list" where
  "feedparser_parse e raw = (if raw = '''' then Inr [] else feed_entries e raw)"

text \<open>
  Modelled from the spec: the date parser under \<open>str_to_datetime\<close> is a library that is
  not part of the sources at hand. Sections 4.3 and 8 of the specification: it accepts
  several common formats and its result is normalised to UTC. A text of the ISO 8601
  form with seconds and the suffix \<open>Z\<close>, as \<open>2020-01-01T00:00:00Z\<close> in the
  specification's scenario, is read as that date and time in UTC when the date exists;
  what the parser gives for any other text is the parameter \<open>other_date_formats\<close>.
\<close>

definition digit_val :: "char \<Rightarrow> int option" where
  "digit_val c =
     (let n = (of_char c :: nat) in if 48 \<le> n \<and> n \<le> 57 then Some (int n - 48) else None)"

fun number_of :: "string \<Rightarrow> int \<Rightarrow> int option" where
  "number_of [] acc = Some acc"
| "number_of (c # cs) acc =
     (case digit_val c of None \<Rightarrow> None | Some d \<Rightarrow> number_of cs (acc * 10 + d))"

definition field :: "string \<Rightarrow> nat \<Rightarrow> nat \<Rightarrow> int option" where
  "field s start len = number_of (take len (drop start s)) 0"

definition iso8601_utc :: "string \<Rightarrow> datetime option" where
  "iso8601_utc s =
     (if length s = 20 \<and> s ! 4 = CHR ''-'' \<and> s ! 7 = CHR ''-'' \<and> s ! 10 = CHR ''T'' \<and>
         s ! 13 = CHR '':'' \<and> s ! 16 = CHR '':'' \<and> s ! 19 = CHR ''Z''
      then
        (case (field s 0 4, field s 5 2, field s 8 2, field s 11 2, field s 14 2, field s 17 2) of
           (Some y, Some m, Some d, Some h, Some mi, Some sec) \<Rightarrow>
             (let dt = \<lparr>year = y, month = m, day = d, hour = h, minute = mi, second = sec,
                        microsecond = 0\<rparr>
              in if valid_datetime dt then Some dt else None)
         | _ \<Rightarrow> None)
      else None)"

definition dateutil_parse :: "env \<Rightarrow> string \<Rightarrow> datetime option" where
  "dateutil_parse e s =
     (case iso8601_utc s of Some dt \<Rightarrow> Some dt | None \<Rightarrow> other_date_formats e s)"

text \<open>
  Modelled from the spec: \<open>str_to_datetime\<close> of perceval/utils.py is not part of the
  sources at hand. Section 4.3 of the specification: the published text is parsed by a
  general-purpose parser and normalised to UTC; an unparseable value is a date error.
\<close>

definition str_to_datetime :: "env \<Rightarrow> pyval \<Rightarrow> error + datetime" where
  "str_to_datetime e v =
     (case v of
        PStr s \<Rightarrow> (case dateutil_parse e s of
                     None \<Rightarrow> Inl (InvalidDateError s)
                   | Some dt \<Rightarrow> Inr dt)
      | _ \<Rightarrow> Inl (InvalidDateError (py_str v)))"

subsection \<open>The metadata functions of the backend\<close>

definition metadata_id :: "entry \<Rightarrow> error + string" where
  "metadata_id item = (case getitem item ''link'' of Inl e \<Rightarrow> Inl e | Inr v \<Rightarrow> Inr (py_str v))"

definition metadata_updated_on :: "env \<Rightarrow> entry \<Rightarrow> error + real" where
  "metadata_updated_on e item =
     (case getitem item ''published'' of
        Inl err \<Rightarrow> Inl err
      | Inr v \<Rightarrow> (case str_to_datetime e v of
                    Inl err \<Rightarrow> Inl err
                  | Inr ts \<Rightarrow> Inr (timestamp ts)))"

definition metadata_category :: "entry \<Rightarrow> string" where
  "metadata_category item = ''entry''"

subsection \<open>The backend, its cache and its cache queue\<close>

text \<open>
  What the collaborators are asked to do is recorded, in order, in a log of the backend:
  the purge of the cache queue, the HTTP request, the push on the queue, the call of the
  feed parser, the flush of the queue, and the read of the cache.
\<close>

datatype effect =
    Purge
  | HttpGet string
  | Push raw
  | Parse raw
  | Flush
  | Retrieve

text \<open>
  The backend object: its URL (the client is built on the same URL), its cache (\<open>None\<close>
  when the backend was built with \<open>cache=None\<close>, else the unit of payloads the
  persistent cache holds, empty before the first commit), the payloads pending in the
  cache queue, and the log.
\<close>

record backend =
  url :: string
  cache :: "raw list option"
  cache_queue :: "raw list"
  effects :: "effect list"

definition log_effect :: "effect \<Rightarrow> backend \<Rightarrow> backend" where
  "log_effect x b = b\<lparr>effects := effects b @ [x]\<rparr>"

text \<open>
  Modelled from the spec: the queue methods of the \<open>Backend\<close> base class
  (perceval/backend.py) are not part of the sources at hand. Section 4.4 of the
  specification: \<open>purge\<close> clears the pending payloads, \<open>push\<close> appends a payload to them
  and leaves the persistent storage alone, \<open>flush\<close> commits all of them to the persistent
  storage as a single retrievable unit and clears them. A backend without a cache has no
  storage to commit to (the command line builds such a backend under \<open>--no-cache\<close>
  and fetches with it).
\<close>

definition purge_cache_queue :: "backend \<Rightarrow> backend" where
  "purge_cache_queue b = (log_effect Purge b)\<lparr>cache_queue := []\<rparr>"

definition push_cache_queue :: "raw \<Rightarrow> backend \<Rightarrow> backend" where
  "push_cache_queue item b = (log_effect (Push item) b)\<lparr>cache_queue := cache_queue b @ [item]\<rparr>"

definition flush_cache_queue :: "backend \<Rightarrow> backend" where
  "flush_cache_queue b =
     (log_effect Flush b)
       \<lparr>cache := (case cache b of None \<Rightarrow> None | Some stored \<Rightarrow> Some (cache_queue b)),
        cache_queue := []\<rparr>"

text \<open>
  Modelled from the spec: \<open>Cache.retrieve\<close> (perceval/cache.py) is not part of the
  sources at hand. Section 6 of the specification: it gives the latest committed
  payloads and changes nothing. \<open>next\<close> on its result is the first of them, and
  \<open>StopIteration\<close> when nothing was committed. Section 7: a failure of the
  collaborator during the read (I/O, corruption) raises the generic \<open>CacheError\<close>, the
  exception the docstring of \<open>fetch_from_cache\<close> names for an error of accessing the
  cache; the generator of \<open>fetch_from_cache\<close> takes it from the parameter
  \<open>cache_failure\<close>.
\<close>

definition retrieve :: "raw list \<Rightarrow> raw list" where
  "retrieve stored = stored"

subsection \<open>The client\<close>

definition raise_for_status :: "response \<Rightarrow> error + unit" where
  "raise_for_status req =
     (if 400 \<le> status_code req \<and> status_code req < 600
      then Inl (HTTPError (status_code req)) else Inr ())"

definition get_entries :: "env \<Rightarrow> backend \<Rightarrow> backend \<times> (error + raw)" where
  "get_entries e b =
     (let b' = log_effect (HttpGet (url b)) b in
      case requests_get e (url b) of
        Inl err \<Rightarrow> (b', Inl err)
      | Inr req \<Rightarrow> (case raise_for_status req of
                     Inl err \<Rightarrow> (b', Inl err)
                   | Inr u \<Rightarrow> (b', Inr (body req))))"

definition parse_feed :: "env \<Rightarrow> raw \<Rightarrow> backend \<Rightarrow> backend \<times> (error + entry list)" where
  "parse_feed e raw_entries b = (log_effect (Parse raw_entries) b, feedparser_parse e raw_entries)"

subsection \<open>Generators\<close>

text \<open>What one \<open>next\<close> on a generator gives: a value, exhaustion, or an exception.\<close>

datatype 'a outcome = Yield 'a | Stop | Raise error

text \<open>
  The exception an outcome carries, and the class of an exception: what an \<open>except\<close>
  clause tells exceptions apart by.
\<close>

fun raised :: "'a outcome \<Rightarrow> error option" where
  "raised (Raise err) = Some err"
| "raised (Yield x) = None"
| "raised Stop = None"

fun exception_class :: "error \<Rightarrow> string" where
  "exception_class (HTTPError status) = ''HTTPError''"
| "exception_class ConnectionError = ''ConnectionError''"
| "exception_class (CacheError cause) = ''CacheError''"
| "exception_class (KeyError key) = ''KeyError''"
| "exception_class (InvalidDateError date) = ''InvalidDateError''"
| "exception_class ParseError = ''ParseError''"
| "exception_class (RuntimeError message) = ''RuntimeError''"

text \<open>
  The generator of \<open>RSS.fetch\<close>: not started, suspended at its \<open>yield\<close> with the
  entries left to yield and the counter \<open>nentries\<close>, or finished.
\<close>

datatype fetch_gen = Created | Suspended "entry list" nat | Finished

text \<open>The \<open>for\<close> loop over the entries, from its head to the next \<open>yield\<close> or its end.\<close>

definition fetch_loop :: "backend \<Rightarrow> entry list \<Rightarrow> nat \<Rightarrow> (backend \<times> fetch_gen) \<times> entry outcome" where
  "fetch_loop b entries nentries =
     (case entries of
        [] \<Rightarrow> ((b, Finished), Stop)
      | item # rest \<Rightarrow> ((b, Suspended rest nentries), Yield item))"

fun fetch_body_next :: "env \<Rightarrow> backend \<times> fetch_gen \<Rightarrow> (backend \<times> fetch_gen) \<times> entry outcome" where
  "fetch_body_next e (b, Created) =
     (let b1 = purge_cache_queue b in
      case get_entries e b1 of
        (b2, Inl err) \<Rightarrow> ((b2, Finished), Raise err)
      | (b2, Inr raw_entries) \<Rightarrow>
          (let b3 = push_cache_queue raw_entries b2 in
           case parse_feed e raw_entries b3 of
             (b4, Inl err) \<Rightarrow> ((b4, Finished), Raise err)
           | (b4, Inr entries) \<Rightarrow> fetch_loop (flush_cache_queue b4) entries 0))"
| "fetch_body_next e (b, Suspended rest nentries) = fetch_loop b rest (nentries + 1)"
| "fetch_body_next e (b, Finished) = ((b, Finished), Stop)"

text \<open>
  The generator of \<open>RSS.fetch_from_cache\<close>. A \<open>StopIteration\<close> that \<open>next\<close> raises
  inside the body of a generator leaves it as a \<open>RuntimeError\<close>.
\<close>

datatype replay_gen = RCreated | RSuspended "entry list" | RFinished

definition replay_loop :: "backend \<Rightarrow> entry list \<Rightarrow> (backend \<times> replay_gen) \<times> entry outcome" where
  "replay_loop b entries =
     (case entries of
        [] \<Rightarrow> ((b, RFinished), Stop)
      | item # rest \<Rightarrow> ((b, RSuspended rest), Yield item))"

fun fetch_from_cache_body_next ::
  "env \<Rightarrow> backend \<times> replay_gen \<Rightarrow> (backend \<times> replay_gen) \<times> entry outcome" where
  "fetch_from_cache_body_next e (b, RCreated) =
     (case cache b of
        None \<Rightarrow> ((b, RFinished), Raise (CacheError ''cache instance was not provided''))
      | Some stored \<Rightarrow>
          (let b1 = log_effect Retrieve b in
           case cache_failure e of
             Some cause \<Rightarrow> ((b1, RFinished), Raise (CacheError cause))
           | None \<Rightarrow>
               (case retrieve stored of
                  [] \<Rightarrow> ((b1, RFinished), Raise (RuntimeError ''generator raised StopIteration''))
                | cache_entries # others \<Rightarrow>
                    (let b2 = log_effect (Parse cache_entries) b1 in
                     case feedparser_parse e cache_entries of
                       Inl err \<Rightarrow> ((b2, RFinished), Raise err)
                     | Inr entries \<Rightarrow> replay_loop b2 entries))))"
| "fetch_from_cache_body_next e (b, RSuspended rest) = replay_loop b rest"
| "fetch_from_cache_body_next e (b, RFinished) = ((b, RFinished), Stop)"

subsection \<open>The metadata decorator\<close>

text \<open>What the decorated generators yield: the entry under its three metadata fields.\<close>

record item_record =
  rec_id :: string
  updated_on :: real
  category :: string
  data :: entry

text \<open>
  Modelled from the spec: the \<open>metadata\<close> decorator (perceval/backend.py) is not part of
  the sources at hand. Sections 4.3, 4.5 and 5 of the specification: the decorated
  function is itself a generator; for each entry the wrapped generator yields it computes
  the identifier, the update time and the category with the three functions of the
  backend, and yields the entry with them; an exception of the wrapped generator or of a
  metadata function leaves through the decorated generator, which is finished then.
\<close>

definition attach_metadata :: "env \<Rightarrow> entry \<Rightarrow> error + item_record" where
  "attach_metadata e item =
     (case metadata_id item of
        Inl err \<Rightarrow> Inl err
      | Inr i \<Rightarrow> (case metadata_updated_on e item of
                    Inl err \<Rightarrow> Inl err
                  | Inr t \<Rightarrow> Inr \<lparr>rec_id = i, updated_on = t,
                                  category = metadata_category item, data = item\<rparr>))"

datatype 'g decorated = Wrapping 'g | Closed

fun metadata_next ::
  "(env \<Rightarrow> backend \<times> 'g \<Rightarrow> (backend \<times> 'g) \<times> entry outcome) \<Rightarrow>
   env \<Rightarrow> backend \<times> 'g decorated \<Rightarrow> (backend \<times> 'g decorated) \<times> item_record outcome" where
  "metadata_next func e (b, Closed) = ((b, Closed), Stop)"
| "metadata_next func e (b, Wrapping g) =
     (case func e (b, g) of
        ((b', g'), Yield item) \<Rightarrow>
          (case attach_metadata e item of
             Inl err \<Rightarrow> ((b', Closed), Raise err)
           | Inr r \<Rightarrow> ((b', Wrapping g'), Yield r))
      | ((b', g'), Stop) \<Rightarrow> ((b', Closed), Stop)
      | ((b', g'), Raise err) \<Rightarrow> ((b', Closed), Raise err))"

subsection \<open>The two entry points\<close>

text \<open>
  Calling a generator function runs none of its body: the call gives the generator
  object, not started, and leaves the backend as it is.
\<close>

definition fetch :: "backend \<Rightarrow> backend \<times> fetch_gen decorated" where
  "fetch b = (b, Wrapping Created)"

definition fetch_next ::
  "env \<Rightarrow> backend \<times> fetch_gen decorated \<Rightarrow> (backend \<times> fetch_gen decorated) \<times> item_record outcome" where
  "fetch_next = metadata_next fetch_body_next"

definition fetch_from_cache :: "backend \<Rightarrow> backend \<times> replay_gen decorated" where
  "fetch_from_cache b = (b, Wrapping RCreated)"

definition fetch_from_cache_next ::
  "env \<Rightarrow> backend \<times> replay_gen decorated \<Rightarrow>
   (backend \<times> replay_gen decorated) \<times> item_record outcome" where
  "fetch_from_cache_next = metadata_next fetch_from_cache_body_next"

subsection \<open>Consuming a generator\<close>

text \<open>
  A consumer (the \<open>for\<close> loop of \<open>RSSCommand.run\<close>) calls \<open>next\<close> until the generator is
  exhausted or raises. The result is the backend and the generator at the end, the
  records received, and the exception that ended the loop, if one did. Both loops
  terminate: the first \<open>next\<close> leaves the generator suspended in the list of entries,
  and each later one shortens that list.
\<close>

definition fetch_rank :: "fetch_gen decorated \<Rightarrow> nat \<times> nat" where
  "fetch_rank g =
     (case g of
        Wrapping Created \<Rightarrow> (1, 0)
      | Wrapping (Suspended rest n) \<Rightarrow> (0, Suc (length rest))
      | _ \<Rightarrow> (0, 0))"

function consume_fetch ::
  "env \<Rightarrow> backend \<times> fetch_gen decorated \<Rightarrow>
   (backend \<times> fetch_gen decorated) \<times> item_record list \<times> error option" where
  "consume_fetch e s =
     (case fetch_next e s of
        (s', Yield r) \<Rightarrow> (case consume_fetch e s' of (s'', rs, err) \<Rightarrow> (s'', r # rs, err))
      | (s', Stop) \<Rightarrow> (s', [], None)
      | (s', Raise err) \<Rightarrow> (s', [], Some err))"
  by pat_completeness auto
termination
proof (relation "inv_image (less_than <*lex*> less_than) (\<lambda>(e, s). fetch_rank (snd s))")
  show "wf (inv_image (less_than <*lex*> less_than) (\<lambda>(e, s). fetch_rank (snd s)))"
    by (intro wf_inv_image wf_lex_prod wf_less_than)
next
  fix e :: env and s x :: "backend \<times> fetch_gen decorated" and y x1
  assume step: "(x, y) = fetch_next e s" "y = Yield x1"
  obtain b g where s: "s = (b, g)" by (cases s)
  have "(fetch_rank (snd x), fetch_rank g) \<in> less_than <*lex*> less_than"
  proof (cases g)
    case (Wrapping inner)
    with step s show ?thesis
      by (cases inner)
        (auto simp: fetch_next_def fetch_rank_def fetch_loop_def Let_def
          split: prod.splits sum.splits list.splits outcome.splits)
  next
    case Closed
    with step s show ?thesis by (simp add: fetch_next_def)
  qed
  with s show "((e, x), e, s) \<in> inv_image (less_than <*lex*> less_than) (\<lambda>(e, s). fetch_rank (snd s))"
    by simp
qed

declare consume_fetch.simps [simp del]

definition replay_rank :: "replay_gen decorated \<Rightarrow> nat \<times> nat" where
  "replay_rank g =
     (case g of
        Wrapping RCreated \<Rightarrow> (1, 0)
      | Wrapping (RSuspended rest) \<Rightarrow> (0, Suc (length rest))
      | _ \<Rightarrow> (0, 0))"

function consume_replay ::
  "env \<Rightarrow> backend \<times> replay_gen decorated \<Rightarrow>
   (backend \<times> replay_gen decorated) \<times> item_record list \<times> error option" where
  "consume_replay e s =
     (case fetch_from_cache_next e s of
        (s', Yield r) \<Rightarrow> (case consume_replay e s' of (s'', rs, err) \<Rightarrow> (s'', r # rs, err))
      | (s', Stop) \<Rightarrow> (s', [], None)
      | (s', Raise err) \<Rightarrow> (s', [], Some err))"
  by pat_completeness auto
termination
proof (relation "inv_image (less_than <*lex*> less_than) (\<lambda>(e, s). replay_rank (snd s))")
  show "wf (inv_image (less_than <*lex*> less_than) (\<lambda>(e, s). replay_rank (snd s)))"
    by (intro wf_inv_image wf_lex_prod wf_less_than)
next
  fix e :: env and s x :: "backend \<times> replay_gen decorated" and y x1
  assume step: "(x, y) = fetch_from_cache_next e s" "y = Yield x1"
  obtain b g where s: "s = (b, g)" by (cases s)
  have "(replay_rank (snd x), replay_rank g) \<in> less_than <*lex*> less_than"
  proof (cases g)
    case (Wrapping inner)
    with step s show ?thesis
      by (cases inner)
        (auto simp: fetch_from_cache_next_def replay_rank_def replay_loop_def Let_def
          split: prod.splits sum.splits list.splits outcome.splits option.splits)
  next
    case Closed
    with step s show ?thesis by (simp add: fetch_from_cache_next_def)
  qed
  with s show "((e, x), e, s) \<in> inv_image (less_than <*lex*> less_than) (\<lambda>(e, s). replay_rank (snd s))"
    by simp
qed

declare consume_replay.simps [simp del]

text \<open>
  What a consumer receives from a list of entries still to be yielded: the records of
  the entries up to the first one whose metadata cannot be extracted, and that
  exception.
\<close>

fun enrich :: "env \<Rightarrow> entry list \<Rightarrow> item_record list \<times> error option" where
  "enrich e [] = ([], None)"
| "enrich e (item # rest) =
     (case attach_metadata e item of
        Inl err \<Rightarrow> ([], Some err)
      | Inr r \<Rightarrow> (case enrich e rest of (rs, err) \<Rightarrow> (r # rs, err)))"

text \<open>The effects a backend has logged since it was in the state \<open>b\<close>.\<close>

definition effects_since :: "backend \<Rightarrow> backend \<Rightarrow> effect list" where
  "effects_since b b' = drop (length (effects b)) (effects b')"

subsection \<open>Inputs for the examples\<close>

text \<open>
  An environment whose server answers every request with the given status and body,
  whose feed parser gives the given result for every payload that is not empty, whose
  date parser reads the ISO 8601 form only, and whose cache storage can be read; and a
  backend with a cache that holds the payload of an earlier run.
\<close>

definition example_env :: "nat \<Rightarrow> raw \<Rightarrow> error + entry list \<Rightarrow> env" where
  "example_env status payload parsed =
     \<lparr>requests_get = (\<lambda>u. Inr \<lparr>status_code = status, body = payload\<rparr>),
      feed_entries = (\<lambda>raw. parsed),
      other_date_formats = (\<lambda>s. None),
      cache_failure = None\<rparr>"

text \<open>The same environment with a storage that cannot be read.\<close>

definition unreadable_env :: "nat \<Rightarrow> raw \<Rightarrow> error + entry list \<Rightarrow> env" where
  "unreadable_env status payload parsed =
     (example_env status payload parsed)\<lparr>cache_failure := Some ''storage is unreadable''\<rparr>"

definition example_backend :: backend where
  "example_backend =
     \<lparr>url = ''http://x/feed'', cache = Some [''old''], cache_queue = [], effects = []\<rparr>"

definition entry1 :: entry where
  "entry1 = [(''link'', PStr ''http://x/1''), (''published'', PStr ''2020-01-01T00:00:00Z'')]"

definition entry2 :: entry where
  "entry2 = [(''link'', PStr ''http://x/2''), (''published'', PStr ''2020-01-02T00:00:00Z'')]"

definition entry_undated :: entry where
  "entry_undated = [(''link'', PStr ''http://x/3'')]"

section \<open>Properties\<close>

subsection \<open>A live fetch, consumed to its end\<close>

lemma consume_fetch_suspended:
  "consume_fetch e (b, Wrapping (Suspended rest n)) = ((b, Closed), enrich e rest)"
proof (induction rest arbitrary: n)
  case Nil
  show ?case
    by (subst consume_fetch.simps) (simp add: fetch_next_def fetch_loop_def)
next
  case (Cons item rest)
  show ?case
    by (subst consume_fetch.simps)
      (simp add: fetch_next_def fetch_loop_def Cons.IH split: sum.splits prod.splits)
qed

lemma consume_fetch_loop:
  "consume_fetch e (b, Wrapping g) = r \<Longrightarrow> fetch_body_next e (b, g) = fetch_loop b' entries n \<Longrightarrow>
     r = ((b', Closed), enrich e entries)"
  by (cases entries)
    (auto simp: consume_fetch.simps[of e "(b, Wrapping g)"] fetch_next_def fetch_loop_def
      consume_fetch_suspended split: sum.splits prod.splits)

lemma consume_fetch_created:
  "consume_fetch e (fetch b) =
     (case snd (get_entries e b) of
        Inl err \<Rightarrow>
          ((b\<lparr>cache_queue := [], effects := effects b @ [Purge, HttpGet (url b)]\<rparr>, Closed), [], Some err)
      | Inr raw \<Rightarrow>
          (case feedparser_parse e raw of
             Inl err \<Rightarrow>
               ((b\<lparr>cache_queue := [raw],
                    effects := effects b @ [Purge, HttpGet (url b), Push raw, Parse raw]\<rparr>, Closed),
                [], Some err)
           | Inr entries \<Rightarrow>
               ((b\<lparr>cache := (case cache b of None \<Rightarrow> None | Some stored \<Rightarrow> Some [raw]),
                    cache_queue := [],
                    effects := effects b @ [Purge, HttpGet (url b), Push raw, Parse raw, Flush]\<rparr>, Closed),
                enrich e entries)))"
proof -
  define b1 where "b1 = purge_cache_queue b"
  define b2 where "b2 = log_effect (HttpGet (url b)) b1"
  have url1: "url b1 = url b"
    by (simp add: b1_def purge_cache_queue_def log_effect_def)
  have get: "get_entries e b1 = (b2, snd (get_entries e b))"
    by (simp add: b2_def url1 get_entries_def Let_def split: sum.splits)
  show ?thesis
  proof (cases "snd (get_entries e b)")
    case (Inl err)
    with get have "fetch_body_next e (b, Created) = ((b2, Finished), Raise err)"
      by (simp add: b1_def)
    then have "consume_fetch e (fetch b) = ((b2, Closed), [], Some err)"
      by (simp add: fetch_def consume_fetch.simps[of e "(b, Wrapping Created)"] fetch_next_def)
    with Inl show ?thesis
      by (simp add: b2_def b1_def purge_cache_queue_def log_effect_def)
  next
    case (Inr raw)
    define b4 where "b4 = log_effect (Parse raw) (push_cache_queue raw b2)"
    show ?thesis
    proof (cases "feedparser_parse e raw")
      case (Inl err)
      with get Inr have "fetch_body_next e (b, Created) = ((b4, Finished), Raise err)"
        by (simp add: b1_def b4_def parse_feed_def)
      then have "consume_fetch e (fetch b) = ((b4, Closed), [], Some err)"
        by (simp add: fetch_def consume_fetch.simps[of e "(b, Wrapping Created)"] fetch_next_def)
      with Inl Inr show ?thesis
        by (simp add: b4_def b2_def b1_def purge_cache_queue_def push_cache_queue_def log_effect_def)
    next
      case (Inr entries)
      with get \<open>snd (get_entries e b) = Inr raw\<close>
      have "fetch_body_next e (b, Created) = fetch_loop (flush_cache_queue b4) entries 0"
        by (simp add: b1_def b4_def parse_feed_def)
      then have "consume_fetch e (fetch b) = ((flush_cache_queue b4, Closed), enrich e entries)"
        using consume_fetch_loop[OF refl, of e b Created] by (simp add: fetch_def)
      with Inr \<open>snd (get_entries e b) = Inr raw\<close> show ?thesis
        by (simp add: b4_def b2_def b1_def purge_cache_queue_def push_cache_queue_def
            flush_cache_queue_def log_effect_def split: option.splits)
    qed
  qed
qed

lemma fetch_loop_backend: "fst (fst (fetch_loop b entries n)) = b"
  by (simp add: fetch_loop_def split: list.splits)

lemma first_next_backend:
  assumes "snd (get_entries e b) = Inr raw" "feedparser_parse e raw = Inr entries"
  shows "fst (fst (fetch_body_next e (b, Created))) =
           b\<lparr>cache := (case cache b of None \<Rightarrow> None | Some stored \<Rightarrow> Some [raw]),
             cache_queue := [],
             effects := effects b @ [Purge, HttpGet (url b), Push raw, Parse raw, Flush]\<rparr>"
proof -
  from assms(1) obtain req where
    "requests_get e (url b) = Inr req" "raise_for_status req = Inr ()" "body req = raw"
    by (auto simp: get_entries_def Let_def split: sum.splits)
  with assms(2) show ?thesis
    by (simp add: get_entries_def parse_feed_def purge_cache_queue_def push_cache_queue_def
        flush_cache_queue_def log_effect_def fetch_loop_backend split: option.splits)
qed

lemma metadata_next_backend:
  "fst (fst (metadata_next func e (b, Wrapping g))) = fst (fst (func e (b, g)))"
  by (simp split: prod.splits outcome.splits sum.splits)

lemma get_entries_Inr:
  "snd (get_entries e b) = Inr raw \<Longrightarrow> \<exists>req. requests_get e (url b) = Inr req \<and> body req = raw"
  by (auto simp: get_entries_def Let_def split: sum.splits)

lemma enrich_until_failure:
  "map (attach_metadata e) before = map Inr rs \<Longrightarrow> attach_metadata e item = Inl err \<Longrightarrow>
     enrich e (before @ item # after) = (rs, Some err)"
proof (induction before arbitrary: rs)
  case Nil
  then show ?case by simp
next
  case (Cons x before)
  then obtain r rs' where rs: "rs = r # rs'" "attach_metadata e x = Inr r"
      "map (attach_metadata e) before = map Inr rs'"
    by (cases rs) auto
  with Cons.IH [OF rs(3) Cons.prems(2)] show ?case by simp
qed

lemma enrich_all:
  "map (attach_metadata e) entries = map Inr rs \<Longrightarrow> enrich e entries = (rs, None)"
proof (induction entries arbitrary: rs)
  case Nil
  then show ?case by simp
next
  case (Cons x entries)
  then obtain r rs' where rs: "rs = r # rs'" "attach_metadata e x = Inr r"
      "map (attach_metadata e) entries = map Inr rs'"
    by (cases rs) auto
  with Cons.IH [OF rs(3)] show ?case by simp
qed

subsection \<open>A replay, consumed to its end\<close>

lemma consume_replay_suspended:
  "consume_replay e (b, Wrapping (RSuspended rest)) = ((b, Closed), enrich e rest)"
proof (induction rest)
  case Nil
  show ?case
    by (subst consume_replay.simps) (simp add: fetch_from_cache_next_def replay_loop_def)
next
  case (Cons item rest)
  show ?case
    by (subst consume_replay.simps)
      (simp add: fetch_from_cache_next_def replay_loop_def Cons.IH split: sum.splits prod.splits)
qed

lemma consume_replay_loop:
  "consume_replay e (b, Wrapping g) = r \<Longrightarrow>
   fetch_from_cache_body_next e (b, g) = replay_loop b' entries \<Longrightarrow>
     r = ((b', Closed), enrich e entries)"
  by (cases entries)
    (auto simp: consume_replay.simps[of e "(b, Wrapping g)"] fetch_from_cache_next_def
      replay_loop_def consume_replay_suspended split: sum.splits prod.splits)

lemma consume_replay_created:
  "consume_replay e (fetch_from_cache b) =
     (case cache b of
        None \<Rightarrow> ((b, Closed), [], Some (CacheError ''cache instance was not provided''))
      | Some stored \<Rightarrow>
          (case cache_failure e of
             Some cause \<Rightarrow>
               ((b\<lparr>effects := effects b @ [Retrieve]\<rparr>, Closed), [], Some (CacheError cause))
           | None \<Rightarrow>
               (case retrieve stored of
                  [] \<Rightarrow> ((b\<lparr>effects := effects b @ [Retrieve]\<rparr>, Closed), [],
                         Some (RuntimeError ''generator raised StopIteration''))
                | raw # others \<Rightarrow>
                    (case feedparser_parse e raw of
                       Inl err \<Rightarrow>
                         ((b\<lparr>effects := effects b @ [Retrieve, Parse raw]\<rparr>, Closed), [], Some err)
                     | Inr entries \<Rightarrow>
                         ((b\<lparr>effects := effects b @ [Retrieve, Parse raw]\<rparr>, Closed),
                          enrich e entries)))))"
proof (cases "cache b")
  case None
  then show ?thesis
    by (simp add: fetch_from_cache_def consume_replay.simps[of e "(b, Wrapping RCreated)"]
        fetch_from_cache_next_def)
next
  case (Some stored)
  show ?thesis
  proof (cases "cache_failure e")
    case (Some cause)
    with \<open>cache b = Some stored\<close> show ?thesis
      by (simp add: fetch_from_cache_def consume_replay.simps[of e "(b, Wrapping RCreated)"]
          fetch_from_cache_next_def log_effect_def)
  next
    case None
    note readable = this
    show ?thesis
    proof (cases "retrieve stored")
      case Nil
      with Some readable show ?thesis
        by (simp add: fetch_from_cache_def consume_replay.simps[of e "(b, Wrapping RCreated)"]
            fetch_from_cache_next_def log_effect_def)
    next
      case (Cons raw others)
      define b2 where "b2 = log_effect (Parse raw) (log_effect Retrieve b)"
      have b2: "b2 = b\<lparr>effects := effects b @ [Retrieve, Parse raw]\<rparr>"
        by (simp add: b2_def log_effect_def)
      show ?thesis
      proof (cases "feedparser_parse e raw")
        case (Inl err)
        with Some readable Cons show ?thesis
          by (simp add: fetch_from_cache_def consume_replay.simps[of e "(b, Wrapping RCreated)"]
              fetch_from_cache_next_def log_effect_def)
      next
        case (Inr entries)
        with Some readable Cons
        have "fetch_from_cache_body_next e (b, RCreated) = replay_loop b2 entries"
          by (simp add: b2_def)
        then have "consume_replay e (fetch_from_cache b) = ((b2, Closed), enrich e entries)"
          using consume_replay_loop[OF refl, of e b RCreated] by (simp add: fetch_from_cache_def)
        with Some readable Cons Inr show ?thesis
          by (simp add: b2)
      qed
    qed
  qed
qed

lemma consume_replay_cache_only:
  "cache b1 = cache b \<Longrightarrow>
     snd (consume_replay e (fetch_from_cache b1)) = snd (consume_replay e (fetch_from_cache b))"
  by (simp add: consume_replay_created split: option.splits list.splits sum.splits)

lemma consume_replay_backend:
  "consume_replay e (fetch_from_cache b) = ((b1, g1), rs, err) \<Longrightarrow>
     cache b1 = cache b \<and> cache_queue b1 = cache_queue b \<and> url b1 = url b \<and>
     set (effects_since b b1) \<subseteq> {Retrieve} \<union> range Parse"
  by (auto simp: consume_replay_created effects_since_def split: option.splits list.splits sum.splits)

subsection \<open>The timestamp of a date\<close>

lemma div_succ:
  fixes n k :: int
  assumes "0 < k"
  shows "(n + 1) div k = n div k + (if (n + 1) mod k = 0 then 1 else 0)"
proof -
  define q r where "q = n div k" and "r = n mod k"
  have n: "n = k * q + r" and r: "0 \<le> r" "r < k"
    using assms by (simp_all add: q_def r_def)
  show ?thesis
  proof (cases "r = k - 1")
    case True
    with n have eq: "n + 1 = k * (q + 1) + 0" by (simp add: algebra_simps)
    have "(n + 1) div k = q + 1" using assms by (intro int_div_pos_eq [OF eq]) simp_all
    moreover have "(n + 1) mod k = 0" using assms by (intro int_mod_pos_eq [OF eq]) simp_all
    ultimately show ?thesis by (simp add: q_def)
  next
    case False
    with r have r1: "0 \<le> r + 1" "r + 1 < k" by simp_all
    from n have eq: "n + 1 = k * q + (r + 1)" by simp
    have "(n + 1) div k = q" by (rule int_div_pos_eq [OF eq r1])
    moreover have "(n + 1) mod k = r + 1" by (rule int_mod_pos_eq [OF eq r1])
    ultimately show ?thesis using r by (simp add: q_def)
  qed
qed

lemma div_pred:
  fixes n k :: int
  assumes "0 < k"
  shows "n div k = (n - 1) div k + (if n mod k = 0 then 1 else 0)"
  using div_succ [OF assms, of "n - 1"] by (simp only: diff_add_cancel)

lemma mod_0_trans:
  fixes y a b :: int
  assumes "y mod b = 0" and "a dvd b"
  shows "y mod a = 0"
  using assms by (meson dvd_trans mod_eq_0_iff_dvd)

lemma mod_0_chain: "y mod 400 = 0 \<Longrightarrow> y mod 100 = 0" "y mod 100 = 0 \<Longrightarrow> y mod 4 = 0" for y :: int
    by (erule mod_0_trans, simp)+

lemma days_before_year_step:
  "days_before_year (y + 1) = days_before_year y + days_in_year y"
proof -
  define a b c where "a = (y - 1) div 4" and "b = (y - 1) div 100" and "c = (y - 1) div 400"
  have step: "y div 4 = a + (if y mod 4 = 0 then 1 else 0)"
       "y div 100 = b + (if y mod 100 = 0 then 1 else 0)"
       "y div 400 = c + (if y mod 400 = 0 then 1 else 0)"
    unfolding a_def b_def c_def by (rule div_pred, simp)+
  have lhs: "days_before_year (y + 1) = y * 365 + y div 4 - y div 100 + y div 400"
    by (simp add: days_before_year_def)
  have rhs: "days_before_year y = (y - 1) * 365 + a - b + c"
    by (simp add: days_before_year_def a_def b_def c_def Let_def)
  consider (quad) "y mod 400 = 0" | (cent) "y mod 400 \<noteq> 0" "y mod 100 = 0"
    | (leap) "y mod 100 \<noteq> 0" "y mod 4 = 0" | (common) "y mod 4 \<noteq> 0"
    by blast
  then show ?thesis
  proof cases
    case quad
    then have "y mod 100 = 0" by (rule mod_0_chain(1))
    moreover from this have "y mod 4 = 0" by (rule mod_0_chain(2))
    ultimately show ?thesis using quad
      unfolding lhs rhs step by (simp add: days_in_year_def is_leap_def)
  next
    case cent
    from cent(2) have "y mod 4 = 0" by (rule mod_0_chain(2))
    with cent show ?thesis
      unfolding lhs rhs step by (simp add: days_in_year_def is_leap_def)
  next
    case leap
    from leap(1) have "y mod 400 \<noteq> 0" using mod_0_chain(1) [of y] by (cases "y mod 400 = 0") simp_all
    with leap show ?thesis
      unfolding lhs rhs step by (simp add: days_in_year_def is_leap_def)
  next
    case common
    from common have c100: "y mod 100 \<noteq> 0" using mod_0_chain(2) [of y] by (cases "y mod 100 = 0") simp_all
    then have "y mod 400 \<noteq> 0" using mod_0_chain(1) [of y] by (cases "y mod 400 = 0") simp_all
    with common c100 show ?thesis
      unfolding lhs rhs step by (simp add: days_in_year_def is_leap_def)
  qed
qed

lemma sum_days_in_year:
  "0 \<le> n \<Longrightarrow> (\<Sum>k\<leftarrow>[1..n]. days_in_year k) = days_before_year (n + 1)"
proof (induction n rule: int_ge_induct)
  case base
  show ?case by (simp add: days_before_year_def)
next
  case (step i)
  have "[1..i + 1] = [1..i] @ [i + 1]"
    using step.hyps by (simp add: upto_rec2)
  with step.IH show ?case
    by (simp only: days_before_year_step [of "i + 1"] map_append sum_list_append list.map
        sum_list.Cons sum_list.Nil add_0_right)
qed

lemma sum_days_in_month:
  assumes "1 \<le> m" "m \<le> 12"
  shows "(\<Sum>k\<leftarrow>[1..m - 1]. days_in_month y k) = days_before_month y m"
proof -
  from assms have "m = 1 \<or> m = 2 \<or> m = 3 \<or> m = 4 \<or> m = 5 \<or> m = 6 \<or> m = 7 \<or> m = 8 \<or>
      m = 9 \<or> m = 10 \<or> m = 11 \<or> m = 12"
    by arith
  then show ?thesis
    by (auto simp: days_in_month_def days_before_month_def DAYS_BEFORE_MONTH_def upto_rec1)
qed

lemma days_since_epoch_ymd2ord:
  assumes "1 \<le> y" "1 \<le> m" "m \<le> 12"
  shows "days_since_epoch y m d = ymd2ord y m d - ymd2ord 1970 1 1"
proof -
  have "(\<Sum>k\<leftarrow>[1..y - 1]. days_in_year k) = days_before_year y"
    using sum_days_in_year [of "y - 1"] assms(1) by simp
  moreover have "(\<Sum>k\<leftarrow>[1..1969]. days_in_year k) = days_before_year 1970"
    using sum_days_in_year [of 1969] by simp
  moreover have "days_before_month 1970 1 = 0"
    by (simp add: days_before_month_def DAYS_BEFORE_MONTH_def)
  ultimately show ?thesis
    by (simp add: days_since_epoch_def ymd2ord_def sum_days_in_month [OF assms(2,3)])
qed

lemma timestamp_spec:
  assumes "valid_datetime dt"
  shows "timestamp dt = true_divide (spec_unix_microseconds dt) 1000000"
proof -
  from assms have "1 \<le> year dt" "1 \<le> month dt" "month dt \<le> 12"
    by (simp_all add: valid_datetime_def)
  from days_since_epoch_ymd2ord [OF this, of "day dt"]
  have days: "ymd2ord (year dt) (month dt) (day dt) - ymd2ord 1970 1 1 =
      days_since_epoch (year dt) (month dt) (day dt)"
    by simp
  show ?thesis
    unfolding timestamp_def Let_def days spec_unix_microseconds_def spec_unix_seconds_def
    by (simp only: add.assoc)
qed

subsection \<open>The float of a timestamp\<close>

lemma bit_length_bound: "n < 2 ^ bit_length n"
proof (induction n rule: bit_length.induct)
  case (1 n)
  show ?case
  proof (cases "n = 0")
    case True
    then show ?thesis by (simp add: bit_length.simps)
  next
    case False
    with 1 have "n div 2 < 2 ^ bit_length (n div 2)" by simp
    then have "n < 2 * 2 ^ bit_length (n div 2)" by linarith
    with False show ?thesis by (simp add: bit_length.simps [of n])
  qed
qed

lemma bit_length_le: "n < 2 ^ j \<Longrightarrow> bit_length n \<le> j"
proof (induction n arbitrary: j rule: bit_length.induct)
  case (1 n)
  show ?case
  proof (cases "n = 0")
    case True
    then show ?thesis by (simp add: bit_length.simps)
  next
    case False
    with "1.prems" obtain i where j: "j = Suc i" by (cases j) auto
    with "1.prems" have "n div 2 < 2 ^ i" by simp
    with 1 False have "bit_length (n div 2) \<le> i" by simp
    with False j show ?thesis by (simp add: bit_length.simps [of n])
  qed
qed

lemma round_half_even_exact: "0 < d \<Longrightarrow> round_half_even (q * d) d = q"
  by (simp add: round_half_even_def)

lemma float_exponent_whole:
  assumes "0 < d" and "0 < s" and "s < 2 ^ 53"
  shows "float_exponent (s * d) d \<le> 0"
proof -
  define k where "k = int (bit_length (nat (s * d))) - int (bit_length (nat d))"
  have d: "nat d < 2 ^ bit_length (nat d)" by (rule bit_length_bound)
  have "nat (s * d) = nat s * nat d"
    using assms by (simp add: nat_mult_distrib)
  moreover have "nat s < 2 ^ 53" using assms by (simp add: nat_less_iff)
  ultimately have "nat (s * d) < 2 ^ 53 * 2 ^ bit_length (nat d)"
    using d by (metis mult_strict_mono' zero_le)
  then have "nat (s * d) < 2 ^ (53 + bit_length (nat d))" by (simp add: power_add)
  then have "bit_length (nat (s * d)) \<le> 53 + bit_length (nat d)" by (rule bit_length_le)
  then have k: "k \<le> 53" by (simp add: k_def)
  have "\<not> d * 2 ^ nat k \<le> s * d * 2 ^ nat (- k)" if "k = 53"
  proof -
    from assms have "s * d < 2 ^ 53 * d" by simp
    with that show ?thesis by (simp add: mult.commute)
  qed
  with k show ?thesis
    unfolding float_exponent_def Let_def k_def [symmetric] by (cases "k = 53") auto
qed

lemma true_divide_exact_pos:
  assumes "0 < d" and "0 < s" and "s < 2 ^ 53"
  shows "true_divide (s * d) d = real_of_int s"
proof -
  define e where "e = float_exponent (s * d) d"
  from float_exponent_whole [OF assms] have e: "e \<le> 0" by (simp add: e_def)
  have a: "\<bar>s * d\<bar> = s * d" using assms by simp
  have "s * d * 2 ^ nat (- e) = (s * 2 ^ nat (- e)) * d" by (simp add: algebra_simps)
  moreover have "d * 2 ^ nat e = d" using e by simp
  ultimately have "round_half_even (s * d * 2 ^ nat (- e)) (d * 2 ^ nat e) = s * 2 ^ nat (- e)"
    using round_half_even_exact [OF assms(1), of "s * 2 ^ nat (- e)"] by (simp only:)
  moreover have "sgn (s * d) = 1" using assms by (simp add: sgn_mult)
  ultimately show ?thesis
    unfolding true_divide_def Let_def a e_def [symmetric] using e by (cases "e = 0") simp_all
qed

lemma true_divide_minus: "true_divide (- n) d = - true_divide n d"
  by (simp add: true_divide_def Let_def)

lemma true_divide_exact:
  assumes "0 < d" and "\<bar>s\<bar> < 2 ^ 53"
  shows "true_divide (s * d) d = real_of_int s"
proof -
  consider "s = 0" | "0 < s" | "s < 0" by linarith
  then show ?thesis
  proof cases
    case 1
    then show ?thesis by (simp add: true_divide_def Let_def round_half_even_def)
  next
    case 2
    with assms show ?thesis by (simp add: true_divide_exact_pos)
  next
    case 3
    with assms have "true_divide (- s * d) d = real_of_int (- s)"
      by (intro true_divide_exact_pos) simp_all
    then show ?thesis using true_divide_minus [of "s * d" d] by simp
  qed
qed


lemma round_half_even_error:
  assumes "0 < d"
  shows "2 * \<bar>round_half_even n d * d - n\<bar> \<le> d"
proof -
  define q r where "q = n div d" and "r = n mod d"
  have n: "n = q * d + r" and r: "0 \<le> r" "r < d"
    using assms by (simp_all add: q_def r_def)
  have "round_half_even n d = q \<and> 2 * r \<le> d \<or> round_half_even n d = q + 1 \<and> d \<le> 2 * r"
    unfolding round_half_even_def Let_def q_def [symmetric] r_def [symmetric] by auto
  then show ?thesis
  proof
    assume "round_half_even n d = q \<and> 2 * r \<le> d"
    with n r show ?thesis by simp
  next
    assume "round_half_even n d = q + 1 \<and> d \<le> 2 * r"
    with n r show ?thesis by (simp add: algebra_simps)
  qed
qed

lemma float_exponent_le:
  assumes "0 < d" and "0 \<le> a" and "a < 2 ^ j * d"
  shows "float_exponent a d \<le> int j - 53"
proof -
  define k where "k = int (bit_length (nat a)) - int (bit_length (nat d))"
  have d: "nat d < 2 ^ bit_length (nat d)" by (rule bit_length_bound)
  have "a < 2 ^ j * 2 ^ bit_length (nat d)"
  proof -
    from d assms(1) have "d < 2 ^ bit_length (nat d)"
      by (metis nat_less_iff of_nat_numeral of_nat_power less_imp_le)
    then have "2 ^ j * d < 2 ^ j * 2 ^ bit_length (nat d)" by simp
    with assms(3) show ?thesis by linarith
  qed
  then have "nat a < 2 ^ (j + bit_length (nat d))"
    using assms(2) by (simp add: power_add nat_less_iff)
  then have "bit_length (nat a) \<le> j + bit_length (nat d)" by (rule bit_length_le)
  then have k: "k \<le> int j" by (simp add: k_def)
  have "\<not> d * 2 ^ nat k \<le> a * 2 ^ nat (- k)" if "k = int j"
    using that assms(3) by (simp add: mult.commute)
  with k show ?thesis
    unfolding float_exponent_def Let_def k_def [symmetric] by (cases "k = int j") auto
qed

lemma true_divide_error:
  assumes "0 < d" and "\<bar>n\<bar> < 2 ^ j * d" and "j \<le> 53"
  shows "\<bar>true_divide n d - real_of_int n / real_of_int d\<bar> \<le> 1 / 2 ^ (54 - j)"
proof -
  define a where "a = \<bar>n\<bar>"
  define e where "e = float_exponent a d"
  define p where "p = nat (- e)"
  define m where "m = round_half_even (a * 2 ^ p) d"
  from float_exponent_le [OF assms(1), of a j] assms(2,3)
  have e: "e \<le> int j - 53" "e \<le> 0" by (simp_all add: a_def e_def)
  then have p: "54 - j \<le> p + 1" by (simp add: p_def)
  have scale: "(if 0 \<le> e then 2 ^ nat e else 1 / 2 ^ nat (- e)) = (1 / 2 ^ p :: real)"
    using e(2) by (cases "e = 0") (simp_all add: p_def)
  have "nat e = 0" using e(2) by simp
  then have td: "true_divide n d = real_of_int (sgn n * m) / 2 ^ p"
    unfolding true_divide_def Let_def a_def [symmetric] e_def [symmetric] scale
    by (simp add: m_def p_def)
  have n: "real_of_int n = real_of_int (sgn n * a)"
    by (simp add: a_def sgn_mult_abs)
  have "true_divide n d - real_of_int n / real_of_int d =
      real_of_int (sgn n) * (real_of_int m / 2 ^ p - real_of_int a / real_of_int d)"
    unfolding td n by (simp add: algebra_simps)
  then have "\<bar>true_divide n d - real_of_int n / real_of_int d\<bar> \<le>
      \<bar>real_of_int m / 2 ^ p - real_of_int a / real_of_int d\<bar>"
  proof -
    have "\<bar>real_of_int (sgn n)\<bar> \<le> 1" by (simp add: sgn_if)
    then have "\<bar>real_of_int (sgn n)\<bar> * x \<le> 1 * x" if "0 \<le> x" for x :: real
      using that by (rule mult_right_mono)
    then show ?thesis
      using \<open>true_divide n d - real_of_int n / real_of_int d =
        real_of_int (sgn n) * (real_of_int m / 2 ^ p - real_of_int a / real_of_int d)\<close>
      by (simp add: abs_mult)
  qed
  also have "real_of_int m / 2 ^ p - real_of_int a / real_of_int d =
      real_of_int (m * d - a * 2 ^ p) / (2 ^ p * real_of_int d)"
    using assms(1) by (simp add: field_simps)
  also have "\<bar>\<dots>\<bar> = real_of_int \<bar>m * d - a * 2 ^ p\<bar> / (2 ^ p * real_of_int d)"
    using assms(1) by (simp add: abs_mult)
  also have "\<dots> \<le> (real_of_int d / 2) / (2 ^ p * real_of_int d)"
  proof -
    from round_half_even_error [OF assms(1), of "a * 2 ^ p"]
    have "2 * \<bar>m * d - a * 2 ^ p\<bar> \<le> d" by (simp add: m_def)
    then have "real_of_int (2 * \<bar>m * d - a * 2 ^ p\<bar>) \<le> real_of_int d"
      by (simp only: of_int_le_iff)
    then have half: "real_of_int \<bar>m * d - a * 2 ^ p\<bar> \<le> real_of_int d / 2" by simp
    have "0 \<le> 2 ^ p * real_of_int d" using assms(1) by simp
    with half show ?thesis by (rule divide_right_mono)
  qed
  also have "\<dots> = 1 / 2 ^ (p + 1)" using assms(1) by simp
  also have "\<dots> \<le> 1 / 2 ^ (54 - j)"
    using p by (simp add: frac_le power_increasing del: power_Suc)
  finally show ?thesis .
qed

lemma days_before_year_bounds:
  assumes "1 \<le> y" and "y \<le> 9999"
  shows "0 \<le> days_before_year y" and "days_before_year y \<le> 3669266"
proof -
  define p where "p = y - 1"
  have p: "0 \<le> p" "p \<le> 9998" using assms by (simp_all add: p_def)
  then have "0 \<le> p div 4" "p div 4 \<le> p" "0 \<le> p div 100" "p div 100 \<le> p"
      "0 \<le> p div 400" "p div 400 \<le> p"
    by arith+
  with p show "0 \<le> days_before_year y" and "days_before_year y \<le> 3669266"
    by (simp_all add: days_before_year_def p_def [symmetric])
qed

lemma days_before_month_bounds:
  assumes "1 \<le> m" and "m \<le> 12"
  shows "0 \<le> days_before_month y m \<and> days_before_month y m \<le> 335"
proof -
  from assms have "m = 1 \<or> m = 2 \<or> m = 3 \<or> m = 4 \<or> m = 5 \<or> m = 6 \<or> m = 7 \<or> m = 8 \<or>
      m = 9 \<or> m = 10 \<or> m = 11 \<or> m = 12"
    by arith
  then show ?thesis
    by (auto simp: days_before_month_def DAYS_BEFORE_MONTH_def)
qed

lemma spec_unix_seconds_bounds:
  assumes "valid_datetime dt"
  shows "- 62135596800 \<le> spec_unix_seconds dt" and "spec_unix_seconds dt < 254923200000"
proof -
  from assms have y: "1 \<le> year dt" "year dt \<le> 9999" and m: "1 \<le> month dt" "month dt \<le> 12"
    and d: "1 \<le> day dt" "day dt \<le> 31"
    and t: "0 \<le> hour dt" "hour dt < 24" "0 \<le> minute dt" "minute dt < 60"
      "0 \<le> second dt" "second dt < 60"
    by (auto simp: valid_datetime_def days_in_month_def split: if_splits)
  have epoch: "ymd2ord 1970 1 1 = 719163"
    by (simp add: ymd2ord_def days_before_year_def days_before_month_def DAYS_BEFORE_MONTH_def)
  have days: "days_since_epoch (year dt) (month dt) (day dt) =
      days_before_year (year dt) + days_before_month (year dt) (month dt) + day dt - 719163"
    using days_since_epoch_ymd2ord [OF y(1) m, of "day dt"] unfolding epoch
    by (simp add: ymd2ord_def)
  from days_before_year_bounds [OF y] days_before_month_bounds [OF m, of "year dt"] d
  have "- 719162 \<le> days_since_epoch (year dt) (month dt) (day dt)"
    "days_since_epoch (year dt) (month dt) (day dt) \<le> 2950469"
    unfolding days by simp_all
  with t show "- 62135596800 \<le> spec_unix_seconds dt" and "spec_unix_seconds dt < 254923200000"
    by (simp_all add: spec_unix_seconds_def)
qed

lemma timestamp_whole_seconds:
  assumes "valid_datetime dt" and "microsecond dt = 0"
  shows "timestamp dt = real_of_int (spec_unix_seconds dt)"
    and "spec_unix_timestamp dt = real_of_int (spec_unix_seconds dt)"
proof -
  from spec_unix_seconds_bounds [OF assms(1)] have "\<bar>spec_unix_seconds dt\<bar> < 2 ^ 53"
    by simp
  then have "true_divide (spec_unix_seconds dt * 1000000) 1000000 = real_of_int (spec_unix_seconds dt)"
    by (intro true_divide_exact) simp_all
  with assms show "timestamp dt = real_of_int (spec_unix_seconds dt)"
    by (simp add: timestamp_spec spec_unix_microseconds_def)
  from assms(2) show "spec_unix_timestamp dt = real_of_int (spec_unix_seconds dt)"
    by (simp add: spec_unix_timestamp_def spec_unix_microseconds_def)
qed

lemma timestamp_close:
  assumes "valid_datetime dt"
  shows "\<bar>true_divide (spec_unix_microseconds dt) 1000000 - spec_unix_timestamp dt\<bar> \<le> 1 / 2 ^ 16"
proof -
  from assms have us: "0 \<le> microsecond dt" "microsecond dt < 1000000"
    by (simp_all add: valid_datetime_def)
  with spec_unix_seconds_bounds [OF assms]
  have "\<bar>spec_unix_microseconds dt\<bar> < 2 ^ 38 * 1000000"
    by (simp add: spec_unix_microseconds_def)
  from true_divide_error [OF _ this] show ?thesis
    by (simp add: spec_unix_timestamp_def)
qed

lemma timestamp_first_day:
  "timestamp \<lparr>year = 2020, month = 1, day = 1, hour = 0, minute = 0, second = 0, microsecond = 0\<rparr>
     = 1577836800"
proof -
  have "valid_datetime
      \<lparr>year = 2020, month = 1, day = 1, hour = 0, minute = 0, second = 0, microsecond = 0\<rparr>"
    by (simp add: valid_datetime_def days_in_month_def)
  from timestamp_whole_seconds(1) [OF this] show ?thesis
    by (simp add: spec_unix_seconds_def days_since_epoch_ymd2ord ymd2ord_def days_before_year_def
        days_before_month_def DAYS_BEFORE_MONTH_def)
qed

lemma timestamp_second_day:
  "timestamp \<lparr>year = 2020, month = 1, day = 2, hour = 0, minute = 0, second = 0, microsecond = 0\<rparr>
     = 1577923200"
proof -
  have "valid_datetime
      \<lparr>year = 2020, month = 1, day = 2, hour = 0, minute = 0, second = 0, microsecond = 0\<rparr>"
    by (simp add: valid_datetime_def days_in_month_def)
  from timestamp_whole_seconds(1) [OF this] show ?thesis
    by (simp add: spec_unix_seconds_def days_since_epoch_ymd2ord ymd2ord_def days_before_year_def
        days_before_month_def DAYS_BEFORE_MONTH_def)
qed

text \<open>
  A date with microseconds: the timestamp is the float nearest to 1577836800.000001,
  which is not that number.
\<close>

lemma timestamp_with_microsecond:
  "timestamp \<lparr>year = 2020, month = 1, day = 1, hour = 0, minute = 0, second = 0, microsecond = 1\<rparr>
     = 1654481800396801 / 1048576"
proof -
  have bl: "bit_length 1577836800000001 = 51" "bit_length 1000000 = 20"
    by (simp_all add: bit_length.simps)
  have e: "float_exponent 1577836800000001 1000000 = - 22"
    by (simp add: float_exponent_def bl)
  have "true_divide 1577836800000001 1000000 = 1654481800396801 / 1048576"
    by (simp add: true_divide_def e round_half_even_def)
  then show ?thesis
    by (simp add: timestamp_def ymd2ord_def days_before_year_def days_before_month_def
        DAYS_BEFORE_MONTH_def)
qed

subsection \<open>The example environment\<close>

lemma example_get_entries:
  "snd (get_entries (example_env status payload parsed) b) =
     (if 400 \<le> status \<and> status < 600 then Inl (HTTPError status) else Inr payload)"
  by (simp add: get_entries_def example_env_def raise_for_status_def)

lemma example_parse:
  "feedparser_parse (example_env status payload parsed) raw = (if raw = '''' then Inr [] else parsed)"
  by (simp add: feedparser_parse_def example_env_def)

lemma example_readable: "cache_failure (example_env status payload parsed) = None"
  by (simp add: example_env_def)

lemma iso8601_first_day:
  "iso8601_utc ''2020-01-01T00:00:00Z'' =
     Some \<lparr>year = 2020, month = 1, day = 1, hour = 0, minute = 0, second = 0, microsecond = 0\<rparr>"
  by (simp add: iso8601_utc_def field_def digit_val_def valid_datetime_def days_in_month_def)

lemma iso8601_second_day:
  "iso8601_utc ''2020-01-02T00:00:00Z'' =
     Some \<lparr>year = 2020, month = 1, day = 2, hour = 0, minute = 0, second = 0, microsecond = 0\<rparr>"
  by (simp add: iso8601_utc_def field_def digit_val_def valid_datetime_def days_in_month_def)

lemma updated_on_first_day:
  "map_of item ''published'' = Some (PStr ''2020-01-01T00:00:00Z'') \<Longrightarrow>
     metadata_updated_on e item = Inr 1577836800"
  by (simp add: metadata_updated_on_def getitem_def str_to_datetime_def dateutil_parse_def
      iso8601_first_day timestamp_first_day)

lemma updated_on_second_day:
  "map_of item ''published'' = Some (PStr ''2020-01-02T00:00:00Z'') \<Longrightarrow>
     metadata_updated_on e item = Inr 1577923200"
  by (simp add: metadata_updated_on_def getitem_def str_to_datetime_def dateutil_parse_def
      iso8601_second_day timestamp_second_day)

lemma attach_metadata_entry1:
  "attach_metadata (example_env status payload parsed) entry1 =
     Inr \<lparr>rec_id = ''http://x/1'', updated_on = 1577836800, category = ''entry'', data = entry1\<rparr>"
proof -
  have "map_of entry1 ''published'' = Some (PStr ''2020-01-01T00:00:00Z'')"
    by (simp add: entry1_def)
  from updated_on_first_day [OF this]
  have upd: "metadata_updated_on (example_env status payload parsed) entry1 = Inr 1577836800" .
  have link: "metadata_id entry1 = Inr ''http://x/1''"
    by (simp add: metadata_id_def getitem_def entry1_def)
  show ?thesis
    by (simp add: attach_metadata_def metadata_category_def upd link)
qed

lemma attach_metadata_entry2:
  "attach_metadata (example_env status payload parsed) entry2 =
     Inr \<lparr>rec_id = ''http://x/2'', updated_on = 1577923200, category = ''entry'', data = entry2\<rparr>"
proof -
  have "map_of entry2 ''published'' = Some (PStr ''2020-01-02T00:00:00Z'')"
    by (simp add: entry2_def)
  from updated_on_second_day [OF this]
  have upd: "metadata_updated_on (example_env status payload parsed) entry2 = Inr 1577923200" .
  have link: "metadata_id entry2 = Inr ''http://x/2''"
    by (simp add: metadata_id_def getitem_def entry2_def)
  show ?thesis
    by (simp add: attach_metadata_def metadata_category_def upd link)
qed

lemma attach_metadata_entry_undated:
  "attach_metadata e entry_undated = Inl (KeyError ''published'')"
  by (simp add: attach_metadata_def metadata_id_def metadata_updated_on_def getitem_def
      entry_undated_def)

subsection \<open>The claims\<close>

text \<open>
  C1, as amended: in a live fetch consumed to its end, the flush of the cache queue is
  invoked exactly when the retrieval over the network and the parse step have both
  succeeded; it is then the last of the five effects of the run, right after the parse.
  In every run in which the retrieval or the parsing raises, the flush is never invoked,
  the persistent cache is as it was, no record is yielded and the run ends in an
  exception. (The metadata of the entries is extracted after the flush, as each entry is
  yielded: an error there does not keep the flush from having happened.)
\<close>

theorem flush_follows_parse:
  assumes "consume_fetch e (fetch b) = ((b', g'), rs, err)"
  shows "(Flush \<in> set (effects_since b b') \<longleftrightarrow>
            (\<exists>raw. snd (get_entries e b) = Inr raw \<and> (\<exists>entries. feedparser_parse e raw = Inr entries))) \<and>
         (Flush \<in> set (effects_since b b') \<longrightarrow>
            (\<exists>raw. effects_since b b' = [Purge, HttpGet (url b), Push raw, Parse raw, Flush])) \<and>
         (Flush \<notin> set (effects_since b b') \<longrightarrow> cache b' = cache b \<and> rs = [] \<and> err \<noteq> None)"
  using assms
  by (auto simp: consume_fetch_created effects_since_def split: sum.splits)

theorem flush_follows_parse_witness:
  "Flush \<in> set (effects_since example_backend
      (fst (fst (consume_fetch (example_env 200 ''<feed/>'' (Inr [entry1, entry2])) (fetch example_backend))))) \<and>
   Flush \<notin> set (effects_since example_backend
      (fst (fst (consume_fetch (example_env 200 ''<feed/>'' (Inl ParseError)) (fetch example_backend))))) \<and>
   cache (fst (fst (consume_fetch (example_env 200 ''<feed/>'' (Inl ParseError)) (fetch example_backend))))
     = cache example_backend"
proof -
  obtain b1 g1 rs1 err1 where run1:
    "consume_fetch (example_env 200 ''<feed/>'' (Inr [entry1, entry2])) (fetch example_backend)
       = ((b1, g1), rs1, err1)"
    by (metis prod.collapse)
  obtain b2 g2 rs2 err2 where run2:
    "consume_fetch (example_env 200 ''<feed/>'' (Inl ParseError)) (fetch example_backend)
       = ((b2, g2), rs2, err2)"
    by (metis prod.collapse)
  from flush_follows_parse [OF run1] flush_follows_parse [OF run2]
  show ?thesis
    by (simp add: run1 run2 example_get_entries example_parse)
qed

text \<open>
  C1 as stated fails: the feed has one entry without a published date, the extraction
  of its metadata raises, and the flush has been invoked and the payload committed.
\<close>

theorem flush_before_metadata_counterexample:
  "snd (snd (consume_fetch (example_env 200 ''<feed/>'' (Inr [entry_undated])) (fetch example_backend)))
     = Some (KeyError ''published'') \<and>
   Flush \<in> set (effects_since example_backend
      (fst (fst (consume_fetch (example_env 200 ''<feed/>'' (Inr [entry_undated])) (fetch example_backend))))) \<and>
   cache (fst (fst (consume_fetch (example_env 200 ''<feed/>'' (Inr [entry_undated])) (fetch example_backend))))
     = Some [''<feed/>'']"
  by (simp add: consume_fetch_created example_get_entries example_parse
      attach_metadata_entry_undated effects_since_def example_backend_def)

text \<open>
  C2, as amended: for every backend built without a cache, calling the replay fetch
  changes nothing, and the first \<open>next\<close> on its generator raises \<open>CacheError\<close> with the
  cause "cache instance was not provided" and leaves the backend as it was: no request
  goes to the network and nothing is read from a cache. The exception is of the class
  that a failure of the cache during the read raises, \<open>CacheError\<close> with the cause of
  that failure: the two are told apart by the cause only. A cache that is there, can be
  read and is empty raises no \<open>CacheError\<close>.
\<close>

theorem replay_without_cache:
  "(cache b = None \<longrightarrow>
      fst (fetch_from_cache b) = b \<and>
      fetch_from_cache_next e (fetch_from_cache b) =
        ((b, Closed), Raise (CacheError ''cache instance was not provided'')) \<and>
      consume_replay e (fetch_from_cache b) =
        ((b, Closed), [], Some (CacheError ''cache instance was not provided''))) \<and>
   (cache b = Some stored \<and> cache_failure e = Some cause \<longrightarrow>
      raised (snd (fetch_from_cache_next e (fetch_from_cache b))) = Some (CacheError cause) \<and>
      exception_class (CacheError cause) =
        exception_class (CacheError ''cache instance was not provided'')) \<and>
   (cache b = Some [] \<and> cache_failure e = None \<longrightarrow>
      raised (snd (fetch_from_cache_next e (fetch_from_cache b))) =
        Some (RuntimeError ''generator raised StopIteration''))"
  by (simp add: fetch_from_cache_next_def fetch_from_cache_def retrieve_def
      consume_replay_created [unfolded fetch_from_cache_def])

theorem replay_without_cache_witness:
  "cache (example_backend\<lparr>cache := None\<rparr>) = None \<and>
   fetch_from_cache_next (example_env 200 ''<feed/>'' (Inr [entry1]))
       (fetch_from_cache (example_backend\<lparr>cache := None\<rparr>)) =
     ((example_backend\<lparr>cache := None\<rparr>, Closed), Raise (CacheError ''cache instance was not provided'')) \<and>
   cache example_backend = Some [''old''] \<and>
   cache_failure (unreadable_env 200 ''<feed/>'' (Inr [entry1])) = Some ''storage is unreadable'' \<and>
   raised (snd (fetch_from_cache_next (unreadable_env 200 ''<feed/>'' (Inr [entry1]))
       (fetch_from_cache example_backend))) = Some (CacheError ''storage is unreadable'') \<and>
   cache (example_backend\<lparr>cache := Some []\<rparr>) = Some [] \<and>
   cache_failure (example_env 200 ''<feed/>'' (Inr [entry1])) = None \<and>
   raised (snd (fetch_from_cache_next (example_env 200 ''<feed/>'' (Inr [entry1]))
       (fetch_from_cache (example_backend\<lparr>cache := Some []\<rparr>)))) =
     Some (RuntimeError ''generator raised StopIteration'')"
proof -
  have unreadable:
    "cache_failure (unreadable_env 200 ''<feed/>'' (Inr [entry1])) = Some ''storage is unreadable''"
    by (simp add: unreadable_env_def)
  have readable: "cache_failure (example_env 200 ''<feed/>'' (Inr [entry1])) = None"
    by (simp add: example_env_def)
  have stored: "cache example_backend = Some [''old'']"
    by (simp add: example_backend_def)
  from replay_without_cache
      [of "example_backend\<lparr>cache := None\<rparr>" "example_env 200 ''<feed/>'' (Inr [entry1])"]
    replay_without_cache
      [of example_backend "unreadable_env 200 ''<feed/>'' (Inr [entry1])" "[''old'']"
        "''storage is unreadable''"]
    replay_without_cache
      [of "example_backend\<lparr>cache := Some []\<rparr>" "example_env 200 ''<feed/>'' (Inr [entry1])"]
  show ?thesis
    using unreadable readable stored by simp
qed

text \<open>
  C2 as stated fails: the exception of a backend without a cache is not distinct from
  the generic cache failure. A backend without a cache and a backend whose cache cannot
  be read raise exceptions of one class, \<open>CacheError\<close>, the class the docstring of
  \<open>fetch_from_cache\<close> gives for any error of accessing the cache.
\<close>

theorem replay_without_cache_counterexample:
  "raised (snd (fetch_from_cache_next (example_env 200 ''<feed/>'' (Inr [entry1]))
       (fetch_from_cache (example_backend\<lparr>cache := None\<rparr>)))) =
     Some (CacheError ''cache instance was not provided'') \<and>
   raised (snd (fetch_from_cache_next (unreadable_env 200 ''<feed/>'' (Inr [entry1]))
       (fetch_from_cache example_backend))) =
     Some (CacheError ''storage is unreadable'') \<and>
   map_option exception_class
     (raised (snd (fetch_from_cache_next (example_env 200 ''<feed/>'' (Inr [entry1]))
       (fetch_from_cache (example_backend\<lparr>cache := None\<rparr>))))) =
   map_option exception_class
     (raised (snd (fetch_from_cache_next (unreadable_env 200 ''<feed/>'' (Inr [entry1]))
       (fetch_from_cache example_backend))))"
  by (simp add: fetch_from_cache_next_def fetch_from_cache_def example_backend_def
      unreadable_env_def)

text \<open>
  C3: after a live fetch that ends without an exception, on a backend with a cache,
  \<open>retrieve\<close> gives exactly the payload the server answered in that run; after a
  live fetch that never reached the flush, it gives what it gave before the run.
\<close>

theorem cache_after_fetch:
  assumes "consume_fetch e (fetch b) = ((b', g'), rs, err)" and "cache b = Some stored"
  shows "(err = None \<longrightarrow>
            (\<exists>req. requests_get e (url b) = Inr req \<and> map_option retrieve (cache b') = Some [body req])) \<and>
         (Flush \<notin> set (effects_since b b') \<longrightarrow>
            map_option retrieve (cache b') = Some (retrieve stored))"
  using assms
  by (auto simp: consume_fetch_created effects_since_def retrieve_def
      dest: get_entries_Inr split: sum.splits)

theorem cache_after_fetch_witness:
  "snd (snd (consume_fetch (example_env 200 ''<feed/>'' (Inr [entry1, entry2])) (fetch example_backend))) = None \<and>
   map_option retrieve
     (cache (fst (fst (consume_fetch (example_env 200 ''<feed/>'' (Inr [entry1, entry2])) (fetch example_backend)))))
     = Some [''<feed/>''] \<and>
   Flush \<notin> set (effects_since example_backend
      (fst (fst (consume_fetch (example_env 503 ''<feed/>'' (Inr [entry1, entry2])) (fetch example_backend))))) \<and>
   map_option retrieve
     (cache (fst (fst (consume_fetch (example_env 503 ''<feed/>'' (Inr [entry1, entry2])) (fetch example_backend)))))
     = Some [''old'']"
proof -
  obtain b1 g1 rs1 err1 where run1:
    "consume_fetch (example_env 200 ''<feed/>'' (Inr [entry1, entry2])) (fetch example_backend)
       = ((b1, g1), rs1, err1)"
    by (metis prod.collapse)
  obtain b2 g2 rs2 err2 where run2:
    "consume_fetch (example_env 503 ''<feed/>'' (Inr [entry1, entry2])) (fetch example_backend)
       = ((b2, g2), rs2, err2)"
    by (metis prod.collapse)
  have stored: "cache example_backend = Some [''old'']"
    by (simp add: example_backend_def)
  have ok: "err1 = None"
    using run1
    by (simp add: consume_fetch_created example_get_entries example_parse
        attach_metadata_entry1 attach_metadata_entry2)
  have fails: "Flush \<notin> set (effects_since example_backend b2)"
    using run2
    by (auto simp: consume_fetch_created example_get_entries effects_since_def)
  have get: "requests_get (example_env status payload parsed) u =
      Inr \<lparr>status_code = status, body = payload\<rparr>" for status payload parsed u
    by (simp add: example_env_def)
  from cache_after_fetch [OF run1 stored] cache_after_fetch [OF run2 stored] ok fails
  show ?thesis
    by (simp add: run1 run2 get retrieve_def)
qed

text \<open>
  C4, as amended: for every entry without a published field the update time fails with
  the error of a missing field (the \<open>KeyError\<close> of the subscript, as the identifier
  does without a link); for every entry whose published text the date parser rejects it
  fails with the date error. Either failure ends the fetch at that entry: the records of
  the entries before it have been yielded, and nothing after it is.
\<close>

theorem metadata_updated_on_failure:
  "(map_of item ''published'' = None \<longrightarrow>
      metadata_updated_on e item = Inl (KeyError ''published'')) \<and>
   (map_of item ''published'' = Some (PStr s) \<and> dateutil_parse e s = None \<longrightarrow>
      metadata_updated_on e item = Inl (InvalidDateError s)) \<and>
   (snd (get_entries e b) = Inr raw \<and> feedparser_parse e raw = Inr (before @ item # after) \<and>
    map (attach_metadata e) before = map Inr rs \<and>
    metadata_id item = Inr i \<and> metadata_updated_on e item = Inl err \<longrightarrow>
      snd (consume_fetch e (fetch b)) = (rs, Some err))"
proof (intro conjI impI)
  assume "map_of item ''published'' = None"
  then show "metadata_updated_on e item = Inl (KeyError ''published'')"
    by (simp add: metadata_updated_on_def getitem_def)
next
  assume "map_of item ''published'' = Some (PStr s) \<and> dateutil_parse e s = None"
  then show "metadata_updated_on e item = Inl (InvalidDateError s)"
    by (simp add: metadata_updated_on_def getitem_def str_to_datetime_def)
next
  assume run: "snd (get_entries e b) = Inr raw \<and> feedparser_parse e raw = Inr (before @ item # after) \<and>
    map (attach_metadata e) before = map Inr rs \<and>
    metadata_id item = Inr i \<and> metadata_updated_on e item = Inl err"
  then have "attach_metadata e item = Inl err"
    by (simp add: attach_metadata_def)
  with run have "enrich e (before @ item # after) = (rs, Some err)"
    by (simp add: enrich_until_failure)
  with run show "snd (consume_fetch e (fetch b)) = (rs, Some err)"
    by (simp add: consume_fetch_created)
qed

theorem metadata_updated_on_failure_witness:
  "map_of entry_undated ''published'' = None \<and>
   metadata_updated_on (example_env 200 ''<feed/>'' (Inr [entry1, entry_undated, entry2])) entry_undated
     = Inl (KeyError ''published'') \<and>
   map_of [(''published'', PStr ''yesterday'')] ''published'' = Some (PStr ''yesterday'') \<and>
   dateutil_parse (example_env 200 ''<feed/>'' (Inr [entry1, entry_undated, entry2])) ''yesterday'' = None \<and>
   metadata_updated_on (example_env 200 ''<feed/>'' (Inr [entry1, entry_undated, entry2]))
       [(''published'', PStr ''yesterday'')]
     = Inl (InvalidDateError ''yesterday'') \<and>
   snd (consume_fetch (example_env 200 ''<feed/>'' (Inr [entry1, entry_undated, entry2]))
       (fetch example_backend))
     = ([\<lparr>rec_id = ''http://x/1'', updated_on = 1577836800, category = ''entry'', data = entry1\<rparr>],
        Some (KeyError ''published''))"
proof -
  let ?e = "example_env 200 ''<feed/>'' (Inr [entry1, entry_undated, entry2])"
  let ?r = "\<lparr>rec_id = ''http://x/1'', updated_on = 1577836800, category = ''entry'', data = entry1\<rparr>"
  have undated: "map_of entry_undated ''published'' = None"
    by (simp add: entry_undated_def)
  have rejected: "dateutil_parse ?e ''yesterday'' = None"
    by (simp add: dateutil_parse_def example_env_def iso8601_utc_def)
  have link: "metadata_id entry_undated = Inr ''http://x/3''"
    by (simp add: metadata_id_def getitem_def entry_undated_def)
  note thm1 = metadata_updated_on_failure
    [of entry_undated ?e "''yesterday''" example_backend "''<feed/>''" "[entry1]" "[entry2]"
      "[?r]" "''http://x/3''" "KeyError ''published''"]
  note thm2 = metadata_updated_on_failure
    [of "[(''published'', PStr ''yesterday'')]" ?e "''yesterday''" example_backend "''<feed/>''" "[]" "[]"
      "[]" "[]" "KeyError ''published''"]
  from thm1 undated have failed:
    "metadata_updated_on ?e entry_undated = Inl (KeyError ''published'')"
    by simp
  with thm1 link have
    "snd (consume_fetch ?e (fetch example_backend)) = ([?r], Some (KeyError ''published''))"
    by (simp add: example_get_entries example_parse attach_metadata_entry1)
  moreover from thm2 rejected have
    "metadata_updated_on ?e [(''published'', PStr ''yesterday'')] = Inl (InvalidDateError ''yesterday'')"
    by simp
  ultimately show ?thesis
    using undated rejected failed by simp
qed

text \<open>
  C4 as stated fails: an entry without a published field fails with the error of the
  missing field, not with a date error, and the fetch has yielded the record of the entry
  before it when it fails.
\<close>

theorem undated_entry_counterexample:
  "metadata_updated_on (example_env 200 ''<feed/>'' (Inr [entry1, entry_undated, entry2])) entry_undated
     = Inl (KeyError ''published'') \<and>
   snd (consume_fetch (example_env 200 ''<feed/>'' (Inr [entry1, entry_undated, entry2]))
       (fetch example_backend))
     = ([\<lparr>rec_id = ''http://x/1'', updated_on = 1577836800, category = ''entry'', data = entry1\<rparr>],
        Some (KeyError ''published''))"
proof
  show "metadata_updated_on (example_env 200 ''<feed/>'' (Inr [entry1, entry_undated, entry2])) entry_undated
     = Inl (KeyError ''published'')"
    by (simp add: metadata_updated_on_def getitem_def entry_undated_def)
next
  show "snd (consume_fetch (example_env 200 ''<feed/>'' (Inr [entry1, entry_undated, entry2]))
       (fetch example_backend))
     = ([\<lparr>rec_id = ''http://x/1'', updated_on = 1577836800, category = ''entry'', data = entry1\<rparr>],
        Some (KeyError ''published''))"
    by (simp add: consume_fetch_created example_get_entries example_parse attach_metadata_entry1
        attach_metadata_entry_undated)
qed

text \<open>
  C5: for every entry whose published text the date parser reads as a valid date, the
  update time is the UTC UNIX timestamp of that date as a float: the float nearest to
  the exact number of seconds from the epoch to the date, within \<open>2\<close> to the \<open>-16\<close>
  of a second of it, and that number itself when the date has no microseconds. For the
  published texts 2020-01-01T00:00:00Z and 2020-01-02T00:00:00Z the update times are
  1577836800 and 1577923200.
\<close>

theorem updated_on_is_unix_timestamp:
  "(map_of item ''published'' = Some (PStr s) \<and> dateutil_parse e s = Some dt \<and> valid_datetime dt \<longrightarrow>
      metadata_updated_on e item = Inr (true_divide (spec_unix_microseconds dt) 1000000) \<and>
      \<bar>true_divide (spec_unix_microseconds dt) 1000000 - spec_unix_timestamp dt\<bar> \<le> 1 / 2 ^ 16 \<and>
      (microsecond dt = 0 \<longrightarrow> metadata_updated_on e item = Inr (spec_unix_timestamp dt))) \<and>
   (map_of item ''published'' = Some (PStr ''2020-01-01T00:00:00Z'') \<longrightarrow>
      metadata_updated_on e item = Inr 1577836800) \<and>
   (map_of item ''published'' = Some (PStr ''2020-01-02T00:00:00Z'') \<longrightarrow>
      metadata_updated_on e item = Inr 1577923200)"
proof (intro conjI impI)
  assume parsed:
    "map_of item ''published'' = Some (PStr s) \<and> dateutil_parse e s = Some dt \<and> valid_datetime dt"
  then show float: "metadata_updated_on e item = Inr (true_divide (spec_unix_microseconds dt) 1000000)"
    by (simp add: metadata_updated_on_def getitem_def str_to_datetime_def timestamp_spec)
  from parsed have "valid_datetime dt" by simp
  then show
    "\<bar>true_divide (spec_unix_microseconds dt) 1000000 - spec_unix_timestamp dt\<bar> \<le> 1 / 2 ^ 16"
    by (rule timestamp_close)
  assume "microsecond dt = 0"
  with parsed timestamp_whole_seconds [of dt]
  show "metadata_updated_on e item = Inr (spec_unix_timestamp dt)"
    by (simp add: metadata_updated_on_def getitem_def str_to_datetime_def)
next
  assume "map_of item ''published'' = Some (PStr ''2020-01-01T00:00:00Z'')"
  then show "metadata_updated_on e item = Inr 1577836800"
    by (rule updated_on_first_day)
next
  assume "map_of item ''published'' = Some (PStr ''2020-01-02T00:00:00Z'')"
  then show "metadata_updated_on e item = Inr 1577923200"
    by (rule updated_on_second_day)
qed

theorem updated_on_is_unix_timestamp_witness:
  "map_of entry1 ''published'' = Some (PStr ''2020-01-01T00:00:00Z'') \<and>
   dateutil_parse (example_env 200 ''<feed/>'' (Inr [entry1, entry2])) ''2020-01-01T00:00:00Z'' =
     Some \<lparr>year = 2020, month = 1, day = 1, hour = 0, minute = 0, second = 0, microsecond = 0\<rparr> \<and>
   valid_datetime
     \<lparr>year = 2020, month = 1, day = 1, hour = 0, minute = 0, second = 0, microsecond = 0\<rparr> \<and>
   metadata_updated_on (example_env 200 ''<feed/>'' (Inr [entry1, entry2])) entry1 =
     Inr (spec_unix_timestamp
       \<lparr>year = 2020, month = 1, day = 1, hour = 0, minute = 0, second = 0, microsecond = 0\<rparr>) \<and>
   metadata_updated_on (example_env 200 ''<feed/>'' (Inr [entry1, entry2])) entry1 = Inr 1577836800 \<and>
   map_of entry2 ''published'' = Some (PStr ''2020-01-02T00:00:00Z'') \<and>
   metadata_updated_on (example_env 200 ''<feed/>'' (Inr [entry1, entry2])) entry2 = Inr 1577923200"
proof -
  let ?e = "example_env 200 ''<feed/>'' (Inr [entry1, entry2])"
  let ?d1 = "\<lparr>year = 2020, month = 1, day = 1, hour = 0, minute = 0, second = 0, microsecond = 0\<rparr>"
  have p1: "map_of entry1 ''published'' = Some (PStr ''2020-01-01T00:00:00Z'')"
    by (simp add: entry1_def)
  have p2: "map_of entry2 ''published'' = Some (PStr ''2020-01-02T00:00:00Z'')"
    by (simp add: entry2_def)
  have d1: "dateutil_parse ?e ''2020-01-01T00:00:00Z'' = Some ?d1"
    by (simp add: dateutil_parse_def iso8601_first_day)
  have v1: "valid_datetime ?d1"
    by (simp add: valid_datetime_def days_in_month_def)
  have m1: "microsecond ?d1 = 0" by simp
  note at1 = updated_on_is_unix_timestamp [of entry1 "''2020-01-01T00:00:00Z''" ?e ?d1]
  note at2 = updated_on_is_unix_timestamp [of entry2 "''2020-01-02T00:00:00Z''" ?e ?d1]
  from at1 p1 d1 v1 m1
  have exact: "metadata_updated_on ?e entry1 = Inr (spec_unix_timestamp ?d1)"
    by blast
  from at1 p1 have first: "metadata_updated_on ?e entry1 = Inr 1577836800"
    by blast
  from at2 p2 have second: "metadata_updated_on ?e entry2 = Inr 1577923200"
    by blast
  from p1 d1 v1 exact first p2 second show ?thesis
    by (intro conjI)
qed

text \<open>
  C6: for every entry with a link field the identifier is \<open>str\<close> of the link; for every
  entry without one the identifier fails with the error of the missing field (the
  \<open>KeyError\<close> of the subscript).
\<close>

theorem metadata_id_is_link:
  "(map_of item ''link'' = Some v \<longrightarrow> metadata_id item = Inr (py_str v)) \<and>
   (map_of item ''link'' = None \<longrightarrow> metadata_id item = Inl (KeyError ''link''))"
  by (simp add: metadata_id_def getitem_def)

theorem metadata_id_is_link_witness:
  "map_of entry1 ''link'' = Some (PStr ''http://x/1'') \<and> metadata_id entry1 = Inr ''http://x/1'' \<and>
   map_of [(''title'', PInt 7)] ''link'' = None \<and>
   metadata_id [(''title'', PInt 7)] = Inl (KeyError ''link'')"
  using metadata_id_is_link [of entry1 "PStr ''http://x/1''"]
    metadata_id_is_link [of "[(''title'', PInt 7)]" undefined]
  by (simp add: entry1_def)

text \<open>
  C7: for every entry, whatever it holds, the category is the constant string "entry".
\<close>

theorem metadata_category_constant: "metadata_category item = ''entry''"
  by (simp add: metadata_category_def)

text \<open>
  C8: when the payload fetched is the empty string, the parse step yields zero entries
  and raises nothing, the fetch yields no record and ends without an exception, the
  flush is invoked, and a backend with a cache holds the empty payload afterwards.
\<close>

theorem fetch_empty_payload:
  assumes "snd (get_entries e b) = Inr ''''"
  shows "snd (parse_feed e '''' b) = Inr [] \<and>
         snd (consume_fetch e (fetch b)) = ([], None) \<and>
         effects_since b (fst (fst (consume_fetch e (fetch b)))) =
           [Purge, HttpGet (url b), Push '''', Parse '''', Flush] \<and>
         cache (fst (fst (consume_fetch e (fetch b)))) =
           (case cache b of None \<Rightarrow> None | Some stored \<Rightarrow> Some [''''])"
  using assms
  by (simp add: consume_fetch_created effects_since_def parse_feed_def feedparser_parse_def)

theorem fetch_empty_payload_witness:
  "snd (get_entries (example_env 200 '''' (Inl ParseError)) example_backend) = Inr '''' \<and>
   snd (parse_feed (example_env 200 '''' (Inl ParseError)) '''' example_backend) = Inr [] \<and>
   snd (consume_fetch (example_env 200 '''' (Inl ParseError)) (fetch example_backend)) = ([], None) \<and>
   cache (fst (fst (consume_fetch (example_env 200 '''' (Inl ParseError)) (fetch example_backend))))
     = Some ['''']"
proof -
  have get: "snd (get_entries (example_env 200 '''' (Inl ParseError)) example_backend) = Inr ''''"
    by (simp add: example_get_entries)
  from fetch_empty_payload [OF get] get show ?thesis
    by (simp add: example_backend_def)
qed

text \<open>
  C9: for every state of the cache (absent, empty or filled), a replay consumed to its
  end leaves the cache as it was, sends no request to the network and flushes nothing,
  and a second replay right after it gives the same records and ends the same way.
\<close>

theorem replay_twice:
  assumes "consume_replay e (fetch_from_cache b) = ((b1, g1), rs, err)"
  shows "snd (consume_replay e (fetch_from_cache b1)) = (rs, err) \<and>
         cache b1 = cache b \<and>
         cache (fst (fst (consume_replay e (fetch_from_cache b1)))) = cache b \<and>
         HttpGet (url b) \<notin> set (effects_since b b1) \<and> Flush \<notin> set (effects_since b b1)"
proof -
  from consume_replay_backend [OF assms]
  have same: "cache b1 = cache b" and eff: "set (effects_since b b1) \<subseteq> {Retrieve} \<union> range Parse"
    by simp_all
  obtain b2 g2 rs2 err2 where again: "consume_replay e (fetch_from_cache b1) = ((b2, g2), rs2, err2)"
    by (metis prod.collapse)
  from consume_replay_backend [OF again] same have "cache b2 = cache b" by simp
  moreover from consume_replay_cache_only [OF same, of e] assms
  have "snd (consume_replay e (fetch_from_cache b1)) = (rs, err)" by simp
  ultimately show ?thesis using same eff again by auto
qed

theorem replay_twice_witness:
  "snd (consume_replay (example_env 200 ''<feed/>'' (Inr [entry1, entry2])) (fetch_from_cache example_backend))
     = snd (consume_replay (example_env 200 ''<feed/>'' (Inr [entry1, entry2]))
         (fetch_from_cache
           (fst (fst (consume_replay (example_env 200 ''<feed/>'' (Inr [entry1, entry2]))
              (fetch_from_cache example_backend)))))) \<and>
   length (fst (snd (consume_replay (example_env 200 ''<feed/>'' (Inr [entry1, entry2]))
      (fetch_from_cache example_backend)))) = 2"
proof -
  obtain b1 g1 rs err where run:
    "consume_replay (example_env 200 ''<feed/>'' (Inr [entry1, entry2])) (fetch_from_cache example_backend)
       = ((b1, g1), rs, err)"
    by (metis prod.collapse)
  have "length rs = 2"
    using run
    by (auto simp: consume_replay_created example_backend_def retrieve_def example_parse
        example_readable
        attach_metadata_entry1 attach_metadata_entry2)
  with replay_twice [OF run] show ?thesis
    by (simp add: run)
qed

text \<open>
  C10: calling \<open>fetch\<close> changes nothing. With a retrieval and a parse that succeed, the
  first \<open>next\<close> on the generator performs the purge, the request, the push, the parse
  and the flush, in this order, whether the feed has entries or not; every later
  \<open>next\<close> leaves the backend as it is.
\<close>

theorem fetch_is_lazy:
  "fst (fetch b) = b \<and>
   (snd (get_entries e b) = Inr raw \<and> feedparser_parse e raw = Inr entries \<longrightarrow>
      effects_since b (fst (fst (fetch_next e (fetch b)))) =
        [Purge, HttpGet (url b), Push raw, Parse raw, Flush]) \<and>
   (g \<noteq> Wrapping Created \<longrightarrow> fst (fst (fetch_next e (b, g))) = b)"
proof (intro conjI impI)
  show "fst (fetch b) = b" by (simp add: fetch_def)
next
  assume "snd (get_entries e b) = Inr raw \<and> feedparser_parse e raw = Inr entries"
  then show "effects_since b (fst (fst (fetch_next e (fetch b)))) =
        [Purge, HttpGet (url b), Push raw, Parse raw, Flush]"
    by (simp add: fetch_def fetch_next_def metadata_next_backend first_next_backend
        effects_since_def del: metadata_next.simps fetch_body_next.simps)
next
  assume "g \<noteq> Wrapping Created"
  then show "fst (fst (fetch_next e (b, g))) = b"
  proof (cases g)
    case (Wrapping inner)
    with \<open>g \<noteq> Wrapping Created\<close> show ?thesis
      by (cases inner)
        (simp_all add: fetch_next_def metadata_next_backend fetch_loop_backend
          del: metadata_next.simps)
  next
    case Closed
    then show ?thesis by (simp add: fetch_next_def)
  qed
qed

theorem fetch_is_lazy_witness:
  "effects (fst (fetch example_backend)) = [] \<and>
   effects_since example_backend
     (fst (fst (fetch_next (example_env 200 ''<feed/>'' (Inr [entry1, entry2])) (fetch example_backend)))) =
     [Purge, HttpGet ''http://x/feed'', Push ''<feed/>'', Parse ''<feed/>'', Flush] \<and>
   fst (fst (fetch_next (example_env 200 ''<feed/>'' (Inr [entry1, entry2]))
     (example_backend, Wrapping (Suspended [entry2] 0)))) = example_backend"
  using fetch_is_lazy [of example_backend "example_env 200 ''<feed/>'' (Inr [entry1, entry2])"
      "''<feed/>''" "[entry1, entry2]" "Wrapping (Suspended [entry2] 0)"]
  by (simp add: example_get_entries example_parse) (simp add: example_backend_def)

subsection \<open>Further properties of the live fetch\<close>

text \<open>
  When the server answers with a status from 400 to 599, the fetch raises the
  \<open>HTTPError\<close> of that status at once: nothing is pushed, parsed or flushed, no record
  is yielded, and the cache is as it was.
\<close>

theorem fetch_http_error:
  assumes "requests_get e (url b) = Inr req" and "400 \<le> status_code req" and "status_code req < 600"
  shows "snd (consume_fetch e (fetch b)) = ([], Some (HTTPError (status_code req))) \<and>
         effects_since b (fst (fst (consume_fetch e (fetch b)))) = [Purge, HttpGet (url b)] \<and>
         cache (fst (fst (consume_fetch e (fetch b)))) = cache b"
  using assms
  by (simp add: consume_fetch_created get_entries_def raise_for_status_def effects_since_def)

theorem fetch_http_error_witness:
  "snd (consume_fetch (example_env 404 ''not found'' (Inr [])) (fetch example_backend))
     = ([], Some (HTTPError 404)) \<and>
   cache (fst (fst (consume_fetch (example_env 404 ''not found'' (Inr [])) (fetch example_backend))))
     = Some [''old'']"
proof -
  have "requests_get (example_env 404 ''not found'' (Inr [])) (url example_backend) =
      Inr \<lparr>status_code = 404, body = ''not found''\<rparr>"
    by (simp add: example_env_def)
  from fetch_http_error [OF this] show ?thesis
    by (simp add: example_backend_def)
qed

text \<open>
  When the retrieval and the parse succeed and the metadata of every entry can be
  extracted, the fetch yields one record per entry, in the order of the feed, each with
  the identifier, the update time and the category of its entry, and ends without an
  exception.
\<close>

theorem fetch_yields_entries_in_order:
  assumes "snd (get_entries e b) = Inr raw" and "feedparser_parse e raw = Inr entries"
    and "map (attach_metadata e) entries = map Inr rs"
  shows "snd (consume_fetch e (fetch b)) = (rs, None) \<and> map data rs = entries \<and>
         map category rs = map (\<lambda>item. ''entry'') entries \<and>
         map (\<lambda>r. Inr (rec_id r)) rs = map metadata_id entries \<and>
         map (\<lambda>r. Inr (updated_on r)) rs = map (metadata_updated_on e) entries"
proof -
  have fields: "data r = item \<and> category r = ''entry'' \<and> Inr (rec_id r) = metadata_id item \<and>
      Inr (updated_on r) = metadata_updated_on e item"
    if "attach_metadata e item = Inr r" for item r
    using that
    by (auto simp: attach_metadata_def metadata_category_def split: sum.splits)
  from assms(3) have "length rs = length entries"
    by (metis length_map)
  moreover from assms(3) have "\<forall>k < length entries. attach_metadata e (entries ! k) = Inr (rs ! k)"
    by (metis length_map nth_map)
  ultimately have
    "map data rs = entries" "map category rs = map (\<lambda>item. ''entry'') entries"
    "map (\<lambda>r. Inr (rec_id r)) rs = map metadata_id entries"
    "map (\<lambda>r. Inr (updated_on r)) rs = map (metadata_updated_on e) entries"
    using fields by (auto simp: list_eq_iff_nth_eq)
  moreover from assms have "snd (consume_fetch e (fetch b)) = (rs, None)"
    by (simp add: consume_fetch_created enrich_all)
  ultimately show ?thesis by simp
qed

theorem fetch_yields_entries_in_order_witness:
  "snd (consume_fetch (example_env 200 ''<feed/>'' (Inr [entry1, entry2])) (fetch example_backend)) =
     ([\<lparr>rec_id = ''http://x/1'', updated_on = 1577836800, category = ''entry'', data = entry1\<rparr>,
       \<lparr>rec_id = ''http://x/2'', updated_on = 1577923200, category = ''entry'', data = entry2\<rparr>],
      None)"
proof -
  let ?e = "example_env 200 ''<feed/>'' (Inr [entry1, entry2])"
  have get: "snd (get_entries ?e example_backend) = Inr ''<feed/>''"
    by (simp add: example_get_entries)
  have parse: "feedparser_parse ?e ''<feed/>'' = Inr [entry1, entry2]"
    by (simp add: example_parse)
  have meta: "map (attach_metadata ?e) [entry1, entry2] =
      map Inr
        [\<lparr>rec_id = ''http://x/1'', updated_on = 1577836800, category = ''entry'', data = entry1\<rparr>,
         \<lparr>rec_id = ''http://x/2'', updated_on = 1577923200, category = ''entry'', data = entry2\<rparr>]"
    by (simp add: attach_metadata_entry1 attach_metadata_entry2)
  from fetch_yields_entries_in_order [OF get parse meta] show ?thesis
    by simp
qed

end
